theory Spec2Isabelle
  imports Main "HOL-Library.Word"
begin

unbundle bit_operations_syntax

section \<open>Formatting helpers of the Go standard library\<close>

text \<open>
  Go strings are byte sequences; they are modelled as \<^typ>\<open>string\<close>, one \<^typ>\<open>char\<close> per
  byte.  \<open>FormatUint\<close> is the decimal rendering that the verb \<^verbatim>\<open>%d\<close> produces for a
  non-negative integer, \<open>Sprintf_d\<close> adds the sign of a negative one.
\<close>

definition digit_char :: "nat \<Rightarrow> char" where
  "digit_char k = ''0123456789'' ! (k mod 10)"

fun FormatUint :: "nat \<Rightarrow> string" where
  "FormatUint n =
     (if n < 10 then [digit_char n]
      else FormatUint (n div 10) @ [digit_char (n mod 10)])"

declare FormatUint.simps [simp del]

definition Sprintf_d :: "int \<Rightarrow> string" where
  "Sprintf_d n = (if n < 0 then CHR ''-'' # FormatUint (nat (- n)) else FormatUint (nat n))"

text \<open>
  \<open>Sprintf1 f n\<close> is \<^verbatim>\<open>fmt.Sprintf(f, n)\<close> for a format whose only verb is one \<^verbatim>\<open>%d\<close>
  (the formats \<^verbatim>\<open>"%dns"\<close>, \<^verbatim>\<open>"%dy"\<close>, ... of the source).
\<close>

fun Sprintf1 :: "string \<Rightarrow> int \<Rightarrow> string" where
  "Sprintf1 [] n = []"
| "Sprintf1 [c] n = [c]"
| "Sprintf1 (c # c' # cs) n =
     (if c = CHR ''%'' \<and> c' = CHR ''d'' then Sprintf_d n @ cs
      else c # Sprintf1 (c' # cs) n)"

text \<open>The value that a string of decimal digits denotes (read back, most significant first).\<close>

definition digits_value :: "string \<Rightarrow> nat" where
  "digits_value s = foldl (\<lambda>acc c. 10 * acc + (of_char c - 48)) 0 s"

section \<open>Duration\<close>

text \<open>
  \<^verbatim>\<open>time.Duration\<close> is an \<^verbatim>\<open>int64\<close> count of nanoseconds.  \<open>Duration\<close> only compares its
  argument with positive constants and divides it by them once it is known to be at least one
  minute, so no operation can leave the 64-bit range and truncating and flooring division agree;
  the argument is modelled as an \<^typ>\<open>int\<close>.
\<close>

definition Nanosecond :: int where "Nanosecond = 1"
definition Microsecond :: int where "Microsecond = 1000 * Nanosecond"
definition Millisecond :: int where "Millisecond = 1000 * Microsecond"
definition Second :: int where "Second = 1000 * Millisecond"
definition Minute :: int where "Minute = 60 * Second"
definition Hour :: int where "Hour = 60 * Minute"

lemmas time_defs = Nanosecond_def Microsecond_def Millisecond_def Second_def Minute_def Hour_def

text \<open>The table \<^verbatim>\<open>durations\<close>: a unit length \<^verbatim>\<open>d\<close> and a format \<^verbatim>\<open>s\<close>.\<close>

definition durations :: "(int \<times> string) list" where
  "durations =
     [(Hour * 24 * 365, ''%dy''),
      (Hour * 24 * 30, ''%dm''),
      (Hour * 24 * 7, ''%dw''),
      (Hour * 24, ''%dd''),
      (Hour, ''%dh''),
      (Minute, ''%dm''),
      (Second, ''%ds'')]"

text \<open>
  The loop \<^verbatim>\<open>for i := range durations\<close>, from index \<open>i\<close> on, over the rest \<open>us\<close> of the
  table; \<open>lst\<close> (the source's \<^verbatim>\<open>last\<close>), \<open>d\<close> and \<open>s\<close> are the loop's variables.
  Both \<^verbatim>\<open>break\<close>s return \<open>s\<close>.
\<close>

fun Duration_loop :: "(int \<times> string) list \<Rightarrow> int \<Rightarrow> int \<Rightarrow> int \<Rightarrow> string \<Rightarrow> string" where
  "Duration_loop [] i lst d s = s"
| "Duration_loop ((u, f) # us) i lst d s =
     (if d \<ge> u then
        (if i - 1 \<noteq> lst then s
         else
           (let s' = s @ Sprintf1 f (d div u);
                d' = d mod u
            in if int (length s') \<ge> 5 then s' else Duration_loop us (i + 1) i d' s'))
      else Duration_loop us (i + 1) lst d s)"

text \<open>
  The three branches below one minute that print a floating-point number take the rendering
  \<^verbatim>\<open>fmt.Sprintf("%.4g", float64(d)/1000/.../1000)\<close> as the parameter \<open>g4 d k\<close>, with \<open>k\<close>
  the number of divisions by 1000.  The suffix of the microsecond branch, MICRO SIGN and
  \<^verbatim>\<open>s\<close>, is the UTF-8 bytes C2 B5 73.
\<close>

definition Duration :: "(int \<Rightarrow> nat \<Rightarrow> string) \<Rightarrow> int \<Rightarrow> string" where
  "Duration g4 d =
     (if d < Microsecond then Sprintf1 ''%dns'' d
      else if d < Millisecond then g4 d 1 @ [CHR 0xC2, CHR 0xB5, CHR ''s'']
      else if d < Second then g4 d 2 @ ''ms''
      else if d < Minute then g4 d 3 @ ''s''
      else Duration_loop durations 0 (- 1) d [])"

section \<open>UTF-8 decoding and the pattern \<^verbatim>\<open>reNumType\<close>\<close>

text \<open>
  The package \<^verbatim>\<open>regexp\<close> matches runes: it decodes its input as UTF-8, and a byte that
  starts no well-formed encoding is the rune \<^verbatim>\<open>U+FFFD\<close> of width one byte.  \<open>DecodeRune\<close>
  is \<^verbatim>\<open>utf8.DecodeRune\<close> on the byte values; it returns the rune and the number of bytes read.
\<close>

type_synonym rune = nat

definition RuneError :: rune where "RuneError = 0xFFFD"

definition cont :: "nat \<Rightarrow> bool" where
  "cont b = (0x80 \<le> b \<and> b \<le> 0xBF)"

definition second_lo :: "nat \<Rightarrow> nat" where
  "second_lo b0 = (if b0 = 0xE0 then 0xA0 else if b0 = 0xF0 then 0x90 else 0x80)"

definition second_hi :: "nat \<Rightarrow> nat" where
  "second_hi b0 = (if b0 = 0xED then 0x9F else if b0 = 0xF4 then 0x8F else 0xBF)"

fun DecodeRune :: "nat list \<Rightarrow> rune \<times> nat" where
  "DecodeRune [] = (RuneError, 0)"
| "DecodeRune (b0 # bs) =
     (if b0 < 0x80 then (b0, 1)
      else if 0xC2 \<le> b0 \<and> b0 \<le> 0xDF then
        (case bs of
           b1 # _ \<Rightarrow>
             if cont b1 then ((b0 - 0xC0) * 64 + (b1 - 0x80), 2) else (RuneError, 1)
         | _ \<Rightarrow> (RuneError, 1))
      else if 0xE0 \<le> b0 \<and> b0 \<le> 0xEF then
        (case bs of
           b1 # b2 # _ \<Rightarrow>
             if second_lo b0 \<le> b1 \<and> b1 \<le> second_hi b0 \<and> cont b2
             then ((b0 - 0xE0) * 4096 + (b1 - 0x80) * 64 + (b2 - 0x80), 3)
             else (RuneError, 1)
         | _ \<Rightarrow> (RuneError, 1))
      else if 0xF0 \<le> b0 \<and> b0 \<le> 0xF4 then
        (case bs of
           b1 # b2 # b3 # _ \<Rightarrow>
             if second_lo b0 \<le> b1 \<and> b1 \<le> second_hi b0 \<and> cont b2 \<and> cont b3
             then ((b0 - 0xF0) * 262144 + (b1 - 0x80) * 4096 + (b2 - 0x80) * 64 + (b3 - 0x80), 4)
             else (RuneError, 1)
         | _ \<Rightarrow> (RuneError, 1))
      else (RuneError, 1))"

fun decode :: "nat list \<Rightarrow> rune list" where
  "decode [] = []"
| "decode (b # bs) =
     (case DecodeRune (b # bs) of (r, n) \<Rightarrow> r # decode (drop (n - 1) bs))"

definition runes :: "string \<Rightarrow> rune list" where
  "runes s = decode (map of_char s)"

text \<open>
  Regular expressions as \<^verbatim>\<open>regexp/syntax\<close> parses them: a character class is a list of
  inclusive rune ranges.  \<open>matches\<close> decides a full match by Brzozowski derivatives.
\<close>

datatype rexp =
    Zero
  | Eps
  | Class "(rune \<times> rune) list"
  | Alt rexp rexp
  | Seq rexp rexp
  | Star rexp

definition in_class :: "(rune \<times> rune) list \<Rightarrow> rune \<Rightarrow> bool" where
  "in_class cs r = list_ex (\<lambda>(lo, hi). lo \<le> r \<and> r \<le> hi) cs"

fun nullable :: "rexp \<Rightarrow> bool" where
  "nullable Zero = False"
| "nullable Eps = True"
| "nullable (Class cs) = False"
| "nullable (Alt a b) = (nullable a \<or> nullable b)"
| "nullable (Seq a b) = (nullable a \<and> nullable b)"
| "nullable (Star a) = True"

fun deriv :: "rune \<Rightarrow> rexp \<Rightarrow> rexp" where
  "deriv c Zero = Zero"
| "deriv c Eps = Zero"
| "deriv c (Class cs) = (if in_class cs c then Eps else Zero)"
| "deriv c (Alt a b) = Alt (deriv c a) (deriv c b)"
| "deriv c (Seq a b) =
     (if nullable a then Alt (Seq (deriv c a) b) (deriv c b) else Seq (deriv c a) b)"
| "deriv c (Star a) = Seq (deriv c a) (Star a)"

fun matches :: "rexp \<Rightarrow> rune list \<Rightarrow> bool" where
  "matches r [] = nullable r"
| "matches r (c # w) = matches (deriv c r) w"

text \<open>
  The set of rune sequences that a regular expression denotes; \<open>matches\<close> is shown below to
  decide membership in it.
\<close>

definition conc :: "rune list set \<Rightarrow> rune list set \<Rightarrow> rune list set" where
  "conc A B = {u @ v | u v. u \<in> A \<and> v \<in> B}"

inductive_set star :: "rune list set \<Rightarrow> rune list set" for A :: "rune list set" where
  star_empty: "[] \<in> star A"
| star_more: "u \<in> A \<Longrightarrow> v \<in> star A \<Longrightarrow> u @ v \<in> star A"

fun lang :: "rexp \<Rightarrow> rune list set" where
  "lang Zero = {}"
| "lang Eps = {[]}"
| "lang (Class cs) = {[r] | r. in_class cs r}"
| "lang (Alt a b) = lang a \<union> lang b"
| "lang (Seq a b) = conc (lang a) (lang b)"
| "lang (Star a) = star (lang a)"

text \<open>The operators \<^verbatim>\<open>+\<close>, \<^verbatim>\<open>?\<close> and \<^verbatim>\<open>{min,max}\<close>.\<close>

definition Plus :: "rexp \<Rightarrow> rexp" where
  "Plus r = Seq r (Star r)"

definition Opt :: "rexp \<Rightarrow> rexp" where
  "Opt r = Alt r Eps"

fun Repeat :: "rexp \<Rightarrow> nat \<Rightarrow> nat \<Rightarrow> rexp" where
  "Repeat r 0 0 = Eps"
| "Repeat r 0 (Suc n) = Opt (Seq r (Repeat r 0 n))"
| "Repeat r (Suc m) n = Seq r (Repeat r m (n - 1))"

text \<open>
  The classes of the pattern.  \<^verbatim>\<open>\d\<close> is the ASCII digits.  Under the flag \<^verbatim>\<open>(?i)\<close> the
  parser closes the class \<^verbatim>\<open>[a-z]\<close> under \<^verbatim>\<open>unicode.SimpleFold\<close>, whose orbits send
  \<^verbatim>\<open>k\<close> to \<^verbatim>\<open>U+212A\<close> (KELVIN SIGN) and \<^verbatim>\<open>s\<close> to \<^verbatim>\<open>U+017F\<close> (LATIN SMALL LETTER
  LONG S): the parsed class is \<^verbatim>\<open>[A-Za-z\x{17F}\x{212A}]\<close>.
\<close>

definition digit_class :: "(rune \<times> rune) list" where
  "digit_class = [(0x30, 0x39)]"

definition letter_class :: "(rune \<times> rune) list" where
  "letter_class = [(0x41, 0x5A), (0x61, 0x7A), (0x17F, 0x17F), (0x212A, 0x212A)]"

text \<open>
  \<^verbatim>\<open>(?i)^\d+(\.\d+)? ?([a-z]{1,5})?$\<close>: the anchors \<^verbatim>\<open>^\<close> and \<^verbatim>\<open>$\<close> (no flag \<^verbatim>\<open>m\<close>)
  make the unanchored search of \<^verbatim>\<open>MatchString\<close> a match of the whole input.
\<close>

definition reNumType :: rexp where
  "reNumType =
     Seq (Plus (Class digit_class))
       (Seq (Opt (Seq (Class [(0x2E, 0x2E)]) (Plus (Class digit_class))))
         (Seq (Opt (Class [(0x20, 0x20)]))
           (Opt (Repeat (Class letter_class) 1 5))))"

definition MatchString :: "rexp \<Rightarrow> string \<Rightarrow> bool" where
  "MatchString re s = matches re (runes s)"

text \<open>
  The pattern in words: digits, optionally a dot and digits, optionally one space, optionally
  one to five letters.  What counts as a letter is the parameter \<open>letter\<close>: the ASCII letters
  of either case (\<open>ascii_letter\<close>), or these and the two runes that fold to them
  (\<open>fold_letter\<close>).
\<close>

definition is_digit :: "rune \<Rightarrow> bool" where
  "is_digit r = (0x30 \<le> r \<and> r \<le> 0x39)"

definition ascii_letter :: "rune \<Rightarrow> bool" where
  "ascii_letter r = ((0x41 \<le> r \<and> r \<le> 0x5A) \<or> (0x61 \<le> r \<and> r \<le> 0x7A))"

definition fold_letter :: "rune \<Rightarrow> bool" where
  "fold_letter r = (ascii_letter r \<or> r = 0x17F \<or> r = 0x212A)"

definition numeric_looking :: "(rune \<Rightarrow> bool) \<Rightarrow> rune list \<Rightarrow> bool" where
  "numeric_looking letter rs =
     (\<exists>ds fs sp ls.
        rs = ds @ fs @ sp @ ls
        \<and> ds \<noteq> [] \<and> list_all is_digit ds
        \<and> (fs = [] \<or> (\<exists>gs. fs = 0x2E # gs \<and> gs \<noteq> [] \<and> list_all is_digit gs))
        \<and> (sp = [] \<or> sp = [0x20])
        \<and> length ls \<le> 5 \<and> list_all letter ls)"

section \<open>Field values and the alignment classifier\<close>

text \<open>
  A field value is an \<^verbatim>\<open>interface{}\<close>.  The model has one constructor for each dynamic type
  that the type switch of \<^verbatim>\<open>isTypeRightAlignable\<close> names, \<open>NilV\<close> for the nil interface
  (what \<^verbatim>\<open>Fields.Get\<close> returns for a missing name) and \<open>OtherV\<close>, tagged with a type name,
  for a value of any other dynamic type (\<^verbatim>\<open>bool\<close>, \<^verbatim>\<open>uintptr\<close>, an \<^verbatim>\<open>error\<close>, a struct, a
  defined type such as \<^verbatim>\<open>log.Level\<close>, ...).  Integers carry their bits, floating-point and
  complex numbers their IEEE bit patterns; \<^verbatim>\<open>int\<close> and \<^verbatim>\<open>uint\<close> are 64 bits wide.
\<close>

datatype val =
    UintV "64 word" | Uint8V "8 word" | Uint16V "16 word" | Uint32V "32 word" | Uint64V "64 word"
  | IntV "64 word" | Int8V "8 word" | Int16V "16 word" | Int32V "32 word" | Int64V "64 word"
  | Float32V "32 word" | Float64V "64 word"
  | Complex64V "32 word" "32 word" | Complex128V "64 word" "64 word"
  | DurationV "64 word" | DurationPtr "64 word option"
  | StringV string
  | BytesV string
  | NilV
  | OtherV string

definition isTypeRightAlignable :: "val \<Rightarrow> bool" where
  "isTypeRightAlignable x =
     (case x of
        UintV _ \<Rightarrow> True | Uint8V _ \<Rightarrow> True | Uint16V _ \<Rightarrow> True | Uint32V _ \<Rightarrow> True
      | Uint64V _ \<Rightarrow> True
      | IntV _ \<Rightarrow> True | Int8V _ \<Rightarrow> True | Int16V _ \<Rightarrow> True | Int32V _ \<Rightarrow> True
      | Int64V _ \<Rightarrow> True
      | Float32V _ \<Rightarrow> True | Float64V _ \<Rightarrow> True
      | Complex64V _ _ \<Rightarrow> True | Complex128V _ _ \<Rightarrow> True
      | DurationV _ \<Rightarrow> True | DurationPtr _ \<Rightarrow> True
      | StringV v \<Rightarrow> MatchString reNumType v
      | BytesV v \<Rightarrow> MatchString reNumType v
      | _ \<Rightarrow> False)"

section \<open>Colors and levels\<close>

text \<open>
  The attributes of \<^verbatim>\<open>github.com/fatih/color\<close> that the package uses, and a color as
  \<^verbatim>\<open>color.New\<close> or \<^verbatim>\<open>color.RGB\<close> builds it.
\<close>

datatype Attribute =
    FgRed | FgGreen | FgYellow | FgBlue | FgMagenta | FgCyan | FgWhite
  | FgHiRed | FgHiGreen | FgHiYellow | FgHiBlue | FgHiMagenta | FgHiCyan
  | BgRed

datatype color = color_New "Attribute list" | color_RGB int int int

text \<open>
  \<^verbatim>\<open>log.Level\<close> is an \<^verbatim>\<open>int\<close>: \<^verbatim>\<open>InvalidLevel\<close> is \<open>-1\<close> and the five levels follow.
  Indexing one of the five-element tables with any other level panics.
\<close>

definition InvalidLevel :: int where "InvalidLevel = - 1"
definition DebugLevel :: int where "DebugLevel = 0"
definition InfoLevel :: int where "InfoLevel = 1"
definition WarnLevel :: int where "WarnLevel = 2"
definition ErrorLevel :: int where "ErrorLevel = 3"
definition FatalLevel :: int where "FatalLevel = 4"

lemmas level_defs =
  InvalidLevel_def DebugLevel_def InfoLevel_def WarnLevel_def ErrorLevel_def FatalLevel_def

datatype panic = IndexOutOfRange | InvalidWriteCount

definition index :: "'a list \<Rightarrow> int \<Rightarrow> panic + 'a" where
  "index xs i = (if 0 \<le> i \<and> i < int (length xs) then Inr (xs ! nat i) else Inl IndexOutOfRange)"

definition LevelColors :: "color list" where
  "LevelColors =
     [color_New [FgBlue], color_New [FgGreen], color_New [FgYellow], color_New [FgRed],
      color_New [BgRed, FgWhite]]"

definition LevelSymbol :: "string list" where
  "LevelSymbol = [''D'', ''I'', ''W'', ''E'', ''F'']"

section \<open>Key colors\<close>

text \<open>
  \<^verbatim>\<open>crc32.ChecksumIEEE\<close> computes the CRC-32 of IEEE 802.3 (reflected polynomial
  \<^verbatim>\<open>0xEDB88320\<close>, initial value and final complement all ones), here bit by bit.
\<close>

definition crc32_bit :: "32 word \<Rightarrow> 32 word" where
  "crc32_bit c = (if bit c 0 then drop_bit 1 c XOR 0xEDB88320 else drop_bit 1 c)"

definition crc32_byte :: "32 word \<Rightarrow> char \<Rightarrow> 32 word" where
  "crc32_byte c b = (crc32_bit ^^ 8) (c XOR of_char b)"

definition ChecksumIEEE :: "string \<Rightarrow> 32 word" where
  "ChecksumIEEE s = NOT (foldl crc32_byte 0xFFFFFFFF s)"

definition mapColor :: "32 word \<Rightarrow> 8 word" where
  "mapColor v = (let v' = (ucast (ucast v :: 8 word) :: 32 word) in ucast (v' * 5 div 10 + 105))"

text \<open>
  \<^verbatim>\<open>LevelColors[log.ErrorLevel]\<close> indexes the table with a constant inside its bounds.
\<close>

definition getKeyColor :: "string \<Rightarrow> color" where
  "getKeyColor key =
     (if key = ''error'' then LevelColors ! nat ErrorLevel
      else
        (let sum = ChecksumIEEE key;
             r = mapColor (drop_bit 24 sum);
             g = mapColor (drop_bit 16 sum);
             b = mapColor (drop_bit 8 sum)
         in color_RGB (uint r) (uint g) (uint b)))"

section \<open>Log entries\<close>

text \<open>
  \<^verbatim>\<open>log.Fields\<close> is a Go map from names to values.  It is modelled as an association list
  read with \<^const>\<open>map_of\<close>; \<open>Names\<close> returns its keys, each once, in ascending byte order
  (\<^verbatim>\<open>sort.Strings\<close>), and \<open>Get\<close> returns the nil interface for a missing name.
\<close>

fun strings_Compare :: "string \<Rightarrow> string \<Rightarrow> int" where
  "strings_Compare [] [] = 0"
| "strings_Compare [] (b # bs) = - 1"
| "strings_Compare (a # as) [] = 1"
| "strings_Compare (a # as) (b # bs) =
     (if (of_char a :: nat) < of_char b then - 1
      else if (of_char b :: nat) < of_char a then 1
      else strings_Compare as bs)"

text \<open>
  \<^verbatim>\<open>sort.Slice\<close> with the comparison \<open>lt\<close> (the source's \<^verbatim>\<open>less\<close>).  The comparisons of
  this package are strict total orders on the distinct names they sort, so the sorted slice is
  unique and any sorting algorithm computes it; the model inserts one element after the other.
\<close>

fun insert_by :: "('a \<Rightarrow> 'a \<Rightarrow> bool) \<Rightarrow> 'a \<Rightarrow> 'a list \<Rightarrow> 'a list" where
  "insert_by lt x [] = [x]"
| "insert_by lt x (y # ys) = (if lt x y then x # y # ys else y # insert_by lt x ys)"

definition sort_Slice :: "('a \<Rightarrow> 'a \<Rightarrow> bool) \<Rightarrow> 'a list \<Rightarrow> 'a list" where
  "sort_Slice lt xs = foldr (insert_by lt) xs []"

type_synonym Fields = "(string \<times> val) list"

definition Names :: "Fields \<Rightarrow> string list" where
  "Names f = sort_Slice (\<lambda>a b. strings_Compare a b = - 1) (remdups (map fst f))"

definition Get :: "Fields \<Rightarrow> string \<Rightarrow> val" where
  "Get f name = (case map_of f name of None \<Rightarrow> NilV | Some v \<Rightarrow> v)"

record Entry =
  Level :: int
  Message :: string
  Entry_Timestamp :: int
  Fields :: Fields

text \<open>
  \<open>names_lt e\<close> is the function literal that \<^verbatim>\<open>sortNames\<close> passes to \<^verbatim>\<open>sort.Slice\<close>, on the
  names at the two indices it is given.
\<close>

definition names_lt :: "Entry \<Rightarrow> string \<Rightarrow> string \<Rightarrow> bool" where
  "names_lt e a b =
     (let aright = isTypeRightAlignable (Get (Fields e) a);
          bright = isTypeRightAlignable (Get (Fields e) b)
      in if aright \<noteq> bright then aright else strings_Compare a b = - 1)"

definition sortNames :: "Entry \<Rightarrow> string list \<Rightarrow> string list" where
  "sortNames e names = sort_Slice (names_lt e) names"

text \<open>The names that \<^verbatim>\<open>HandleLog\<close> renders, in the order of their rendering.\<close>

definition rendered_names :: "Entry \<Rightarrow> string list" where
  "rendered_names e = filter (\<lambda>name. name \<noteq> ''source'') (sortNames e (Names (Fields e)))"

section \<open>Field statistics\<close>

text \<open>
  The counters of \<^verbatim>\<open>keyStat\<close> are Go \<^verbatim>\<open>int\<close>s (64 bits).  They start at zero and grow by
  one per observation, so they cannot wrap before \<open>2^63\<close> observations of one name; they are
  modelled as \<^typ>\<open>int\<close>.  \<open>quo\<close> is Go's integer division, which truncates towards zero.
\<close>

record keyStat =
  MaxLength :: int
  Count :: int
  RightAlignable :: int

definition keyStat_zero :: keyStat where
  "keyStat_zero = \<lparr>MaxLength = 0, Count = 0, RightAlignable = 0\<rparr>"

definition quo :: "int \<Rightarrow> int \<Rightarrow> int" where
  "quo a b = sgn a * sgn b * (\<bar>a\<bar> div \<bar>b\<bar>)"

text \<open>
  Lines 116 to 124 of \<^verbatim>\<open>writeNameValue\<close>: the update of the statistics of one name by a
  value of display width \<open>sw\<close> that the classifier found right-alignable or not (\<open>isRight\<close>).
\<close>

definition observe :: "keyStat \<Rightarrow> int \<Rightarrow> bool \<Rightarrow> keyStat" where
  "observe kstat sw isRight =
     (let k1 = kstat\<lparr>MaxLength := max (MaxLength kstat) sw\<rparr>;
          k2 = k1\<lparr>Count := Count k1 + 1\<rparr>;
          k3 = (if sw + 20 < MaxLength k2 then k2\<lparr>MaxLength := sw\<rparr> else k2)
      in if isRight then k3\<lparr>RightAlignable := RightAlignable k3 + 1\<rparr> else k3)"

text \<open>Line 125: the alignment that is rendered.\<close>

definition alignRight :: "keyStat \<Rightarrow> bool" where
  "alignRight kstat = (RightAlignable kstat > quo (Count kstat) 2)"

text \<open>
  The statistics of one name after a sequence of observations \<open>(sw, isRight)\<close>, the first
  observation first.
\<close>

definition observe_all :: "keyStat \<Rightarrow> (int \<times> bool) list \<Rightarrow> keyStat" where
  "observe_all k obs = foldl (\<lambda>k (sw, r). observe k sw r) k obs"

section \<open>The handler\<close>

text \<open>
  What the handler takes from other packages is a parameter of the model:
  \<^item> \<open>Sprintf_g4 d k\<close> is \<^verbatim>\<open>fmt.Sprintf("%.4g", float64(d)/1000/.../1000)\<close>, \<open>k\<close> divisions;
  \<^item> \<open>StringWidth\<close> is \<^verbatim>\<open>runewidth.StringWidth\<close>;
  \<^item> \<open>Sprintf_v v\<close> is \<^verbatim>\<open>fmt.Sprintf("%v", v)\<close>, \<open>Sprintf_wv w v\<close> is
    \<^verbatim>\<open>fmt.Sprintf("%*v", w, v)\<close> and \<open>Sprintf_ws w s\<close> is \<^verbatim>\<open>fmt.Sprintf("%*s", w, s)\<close>;
  \<^item> \<open>Format layout t\<close> is \<^verbatim>\<open>t.Format(layout)\<close>;
  \<^item> \<open>Sprint c s\<close> is \<^verbatim>\<open>c.Sprint(s)\<close> and \<open>color_Fprintf c s\<close> the bytes that
    \<^verbatim>\<open>c.Fprintf\<close> writes for the formatted text \<open>s\<close>;
  \<^item> \<open>Write w p\<close> is one call \<^verbatim>\<open>w.Write(p)\<close> of the \<^verbatim>\<open>io.Writer\<close> in state \<open>w\<close>: the count
    and error it returns, and its next state.
\<close>

datatype error = ErrShortWrite | WriteError string

record 'w ext =
  Sprintf_g4 :: "int \<Rightarrow> nat \<Rightarrow> string"
  StringWidth :: "string \<Rightarrow> int"
  Sprintf_v :: "val \<Rightarrow> string"
  Sprintf_wv :: "int \<Rightarrow> val \<Rightarrow> string"
  Sprintf_ws :: "int \<Rightarrow> string \<Rightarrow> string"
  Format :: "string \<Rightarrow> int \<Rightarrow> string"
  Sprint :: "color \<Rightarrow> string \<Rightarrow> string"
  color_Fprintf :: "color \<Rightarrow> string \<Rightarrow> string"
  Write :: "'w \<Rightarrow> string \<Rightarrow> (nat \<times> error option) \<times> 'w"

text \<open>
  The handler: \<open>lengths\<close> maps a name to a \<^typ>\<open>keyStat\<close> (to an \<^verbatim>\<open>int\<close> in the earlier
  version of the package), hence the type parameter \<open>'k\<close>.
\<close>

record ('w, 'k) Handler =
  Writer :: 'w
  Timestamp :: string
  lengths :: "string \<rightharpoonup> 'k"
  buf :: string

text \<open>
  \<^verbatim>\<open>New\<close>, without the wrapping of an \<^verbatim>\<open>*os.File\<close> by \<^verbatim>\<open>colorable.NewColorable\<close>, which
  is a property of the writer.
\<close>

definition New :: "'w \<Rightarrow> ('w, keyStat) Handler" where
  "New w = \<lparr>Writer = w, Timestamp = ''15:04:05.000'', lengths = Map.empty, buf = []\<rparr>"

text \<open>Reading a Go map at a missing key gives the zero value.\<close>

definition lengths_at :: "(string \<rightharpoonup> keyStat) \<Rightarrow> string \<Rightarrow> keyStat" where
  "lengths_at m name = (case m name of None \<Rightarrow> keyStat_zero | Some k \<Rightarrow> k)"

text \<open>
  A write to the \<^verbatim>\<open>bytes.Buffer\<close> appends and returns a nil error (the buffer grows as
  needed); the source checks each of these errors, and so does the model.
\<close>

definition Fprintf_buf :: "('w, 'k) Handler \<Rightarrow> string \<Rightarrow> error option \<times> ('w, 'k) Handler" where
  "Fprintf_buf h s = (None, h\<lparr>buf := buf h @ s\<rparr>)"

text \<open>Lines 110 to 113: the value that is printed; a \<^verbatim>\<open>time.Duration\<close> becomes a string.\<close>

definition field_val :: "'w ext \<Rightarrow> Entry \<Rightarrow> string \<Rightarrow> val" where
  "field_val x e name =
     (case Get (Fields e) name of
        DurationV dur \<Rightarrow> StringV (Duration (Sprintf_g4 x) (sint dur))
      | v \<Rightarrow> v)"

definition writeNameValue ::
  "'w ext \<Rightarrow> ('w, keyStat) Handler \<Rightarrow> Entry \<Rightarrow> string \<Rightarrow> nat \<Rightarrow> string list \<Rightarrow>
   error option \<times> ('w, keyStat) Handler" where
  "writeNameValue x h e name i names =
     (let val = field_val x e name;
          sw = StringWidth x (Sprintf_v x val);
          kstat = observe (lengths_at (lengths h) name) sw (isTypeRightAlignable val);
          isRight = alignRight kstat;
          h' = h\<lparr>lengths := (lengths h)(name \<mapsto> kstat)\<rparr>
      in if isRight then
           (case Fprintf_buf h'
                   ('' '' @ Sprint x (getKeyColor name) name @ ''=''
                    @ Sprintf_wv x (MaxLength kstat) val) of
              (Some err, h'') \<Rightarrow> (Some err, h'')
            | (None, h'') \<Rightarrow> (None, h''))
         else
           (let pad = (if sw < MaxLength kstat \<and> i + 1 \<noteq> length names
                       then replicate (nat (MaxLength kstat - sw)) CHR '' '' else [])
            in Fprintf_buf h'
                 ('' '' @ Sprint x (getKeyColor name) name @ ''='' @ Sprintf_v x val @ pad)))"

text \<open>
  Names for the parts of one call of \<^verbatim>\<open>writeNameValue\<close>, used to state what it does: the
  display width \<open>field_sw\<close> of the printed value, the statistics \<open>field_stat\<close> that the call
  stores for the name, and the text that it appends, \<open>right_text\<close> with a column width or
  \<open>left_text\<close> with a number of padding spaces.
\<close>

definition field_sw :: "'w ext \<Rightarrow> Entry \<Rightarrow> string \<Rightarrow> int" where
  "field_sw x e name = StringWidth x (Sprintf_v x (field_val x e name))"

definition field_stat :: "'w ext \<Rightarrow> (string \<rightharpoonup> keyStat) \<Rightarrow> Entry \<Rightarrow> string \<Rightarrow> keyStat" where
  "field_stat x m e name =
     observe (lengths_at m name) (field_sw x e name) (isTypeRightAlignable (field_val x e name))"

definition right_text :: "'w ext \<Rightarrow> string \<Rightarrow> int \<Rightarrow> val \<Rightarrow> string" where
  "right_text x name w v = '' '' @ Sprint x (getKeyColor name) name @ ''='' @ Sprintf_wv x w v"

definition left_text :: "'w ext \<Rightarrow> string \<Rightarrow> val \<Rightarrow> nat \<Rightarrow> string" where
  "left_text x name v n =
     '' '' @ Sprint x (getKeyColor name) name @ ''='' @ Sprintf_v x v @ replicate n CHR '' ''"

definition field_text :: "'w ext \<Rightarrow> keyStat \<Rightarrow> Entry \<Rightarrow> string \<Rightarrow> nat \<Rightarrow> string list \<Rightarrow> string" where
  "field_text x k e name i names =
     (if alignRight k then right_text x name (MaxLength k) (field_val x e name)
      else left_text x name (field_val x e name)
             (if field_sw x e name < MaxLength k \<and> i + 1 \<noteq> length names
              then nat (MaxLength k - field_sw x e name) else 0))"

text \<open>
  The alignment with which a call of \<^verbatim>\<open>writeNameValue\<close> renders the field \<open>name\<close> of the
  entry \<open>e\<close> on a handler whose statistics are \<open>m\<close>: line 125 on the statistics that the
  call stores.
\<close>

definition rendered_right :: "'w ext \<Rightarrow> (string \<rightharpoonup> keyStat) \<Rightarrow> Entry \<Rightarrow> string \<Rightarrow> bool" where
  "rendered_right x m e name = alignRight (field_stat x m e name)"

text \<open>
  A sequence \<open>cs\<close> of calls of \<^verbatim>\<open>writeNameValue\<close>, each with its name, entry, index and
  list of names, the first call first; and the observations \<open>(sw, isRight)\<close> of one name that
  such a sequence makes.
\<close>

record call =
  call_name :: string
  call_entry :: Entry
  call_index :: nat
  call_names :: "string list"

definition writeNameValue_all ::
  "'w ext \<Rightarrow> ('w, keyStat) Handler \<Rightarrow> call list \<Rightarrow> ('w, keyStat) Handler" where
  "writeNameValue_all x h cs =
     foldl (\<lambda>h c. snd (writeNameValue x h (call_entry c) (call_name c) (call_index c)
                           (call_names c))) h cs"

definition observations :: "'w ext \<Rightarrow> string \<Rightarrow> call list \<Rightarrow> (int \<times> bool) list" where
  "observations x name cs =
     map (\<lambda>c. (field_sw x (call_entry c) name,
                isTypeRightAlignable (field_val x (call_entry c) name)))
       (filter (\<lambda>c. call_name c = name) cs)"

text \<open>The loop \<^verbatim>\<open>for i, name := range names\<close> of \<^verbatim>\<open>HandleLog\<close>, from index \<open>i\<close> on.\<close>

fun fields_loop ::
  "'w ext \<Rightarrow> Entry \<Rightarrow> string list \<Rightarrow> nat \<Rightarrow> string list \<Rightarrow> ('w, keyStat) Handler \<Rightarrow>
   error option \<times> ('w, keyStat) Handler" where
  "fields_loop x e names i [] h = (None, h)"
| "fields_loop x e names i (name # rest) h =
     (if name = ''source'' then fields_loop x e names (i + 1) rest h
      else
        (case writeNameValue x h e name i names of
           (Some err, h') \<Rightarrow> (Some err, h')
         | (None, h') \<Rightarrow> fields_loop x e names (i + 1) rest h'))"

text \<open>The calls of \<^verbatim>\<open>writeNameValue\<close> that the loop makes.\<close>

definition loop_calls :: "Entry \<Rightarrow> string list \<Rightarrow> nat \<Rightarrow> string list \<Rightarrow> call list" where
  "loop_calls e names i rest =
     map (\<lambda>p. \<lparr>call_name = snd p, call_entry = e, call_index = fst p, call_names = names\<rparr>)
       (filter (\<lambda>p. snd p \<noteq> ''source'') (enumerate i rest))"

text \<open>
  \<^verbatim>\<open>bytes.Buffer.WriteTo\<close>: one \<^verbatim>\<open>Write\<close> of the unread bytes; a count above their number
  panics, an error of the writer is returned, a short count without error is
  \<^verbatim>\<open>io.ErrShortWrite\<close>, and the buffer is reset once everything is written.
\<close>

definition WriteTo ::
  "'w ext \<Rightarrow> ('w, 'k) Handler \<Rightarrow> panic + (error option \<times> ('w, 'k) Handler)" where
  "WriteTo x h =
     (let nBytes = length (buf h)
      in if nBytes > 0 then
           (case Write x (Writer h) (buf h) of
              ((m, e), w') \<Rightarrow>
                if m > nBytes then Inl InvalidWriteCount
                else
                  (let h' = h\<lparr>Writer := w', buf := drop m (buf h)\<rparr>
                   in case e of
                        Some err \<Rightarrow> Inr (Some err, h')
                      | None \<Rightarrow>
                          if m \<noteq> nBytes then Inr (Some ErrShortWrite, h')
                          else Inr (None, h'\<lparr>buf := []\<rparr>)))
         else Inr (None, h\<lparr>buf := []\<rparr>))"

text \<open>
  \<^verbatim>\<open>HandleLog\<close> up to the line feed (lines 74 to 104): the line is assembled in the buffer.
  The mutex is not modelled: the calls of the model are sequential.
\<close>

definition render ::
  "'w ext \<Rightarrow> ('w, keyStat) Handler \<Rightarrow> Entry \<Rightarrow>
   panic + (error option \<times> ('w, keyStat) Handler)" where
  "render x h e =
     (case index LevelColors (Level e) of
        Inl p \<Rightarrow> Inl p
      | Inr colr \<Rightarrow>
     (case index LevelSymbol (Level e) of
        Inl p \<Rightarrow> Inl p
      | Inr level \<Rightarrow>
     (let names = sortNames e (Names (Fields e));
          h0 = h\<lparr>buf := []\<rparr>
      in case Fprintf_buf h0
                (color_Fprintf x colr (Format x (Timestamp h) (Entry_Timestamp e) @ '' '' @ level)) of
           (Some err, h1) \<Rightarrow> Inr (Some err, h1)
         | (None, h1) \<Rightarrow>
     (case (if Message e \<noteq> [] then Fprintf_buf h1 ('' '' @ Message e) else (None, h1)) of
           (Some err, h2) \<Rightarrow> Inr (Some err, h2)
         | (None, h2) \<Rightarrow>
     (case fields_loop x e names 0 names h2 of
           (Some err, h3) \<Rightarrow> Inr (Some err, h3)
         | (None, h3) \<Rightarrow> Inr (Fprintf_buf h3 [CHR 0x0A]))))))"

text \<open>The whole of \<^verbatim>\<open>HandleLog\<close>: lines 105 and 106 hand the buffer to the writer.\<close>

definition HandleLog ::
  "'w ext \<Rightarrow> ('w, keyStat) Handler \<Rightarrow> Entry \<Rightarrow>
   panic + (error option \<times> ('w, keyStat) Handler)" where
  "HandleLog x h e =
     (case render x h e of
        Inl p \<Rightarrow> Inl p
      | Inr (Some err, h') \<Rightarrow> Inr (Some err, h')
      | Inr (None, h') \<Rightarrow> WriteTo x h')"

text \<open>
  Names for what one call of \<^verbatim>\<open>HandleLog\<close> does, used to state it: \<open>fields_text\<close> is the text
  of the fields of \<open>rest\<close>, whose indices start at \<open>i\<close>, \<open>fields_lengths\<close> the statistics after
  them, and \<open>line_text\<close> the whole line.
\<close>

definition fields_text ::
  "'w ext \<Rightarrow> (string \<rightharpoonup> keyStat) \<Rightarrow> Entry \<Rightarrow> string list \<Rightarrow> nat \<Rightarrow> string list \<Rightarrow> string" where
  "fields_text x m e names i rest =
     concat
       (map (\<lambda>p. field_text x (field_stat x m e (snd p)) e (snd p) (fst p) names)
          (filter (\<lambda>p. snd p \<noteq> ''source'') (enumerate i rest)))"

definition fields_lengths ::
  "'w ext \<Rightarrow> (string \<rightharpoonup> keyStat) \<Rightarrow> Entry \<Rightarrow> string list \<Rightarrow> (string \<rightharpoonup> keyStat)" where
  "fields_lengths x m e rest =
     (\<lambda>n. if n \<in> set rest \<and> n \<noteq> ''source'' then Some (field_stat x m e n) else m n)"

definition line_text :: "'w ext \<Rightarrow> ('w, keyStat) Handler \<Rightarrow> Entry \<Rightarrow> string" where
  "line_text x h e =
     color_Fprintf x (LevelColors ! nat (Level e))
       (Format x (Timestamp h) (Entry_Timestamp e) @ '' '' @ LevelSymbol ! nat (Level e))
     @ (if Message e \<noteq> [] then '' '' @ Message e else [])
     @ fields_text x (lengths h) e (sortNames e (Names (Fields e))) 0
         (sortNames e (Names (Fields e)))
     @ [CHR 0x0A]"

section \<open>The earlier version of the handler\<close>

text \<open>
  The file \<^verbatim>\<open>src/unnamed/part_000\<close> is an earlier version of the package.  Its classifier,
  \<^verbatim>\<open>sortNames\<close> and \<^verbatim>\<open>LevelSymbol\<close> are those above; it colors keys from a fixed palette,
  keeps one width per name and discards the result of every write.  Its definitions carry
  the suffix \<open>0\<close>.
\<close>

definition LevelColors0 :: "color list" where
  "LevelColors0 =
     [color_New [FgWhite], color_New [FgBlue], color_New [FgYellow], color_New [FgRed],
      color_New [FgHiRed]]"

definition KeyColors :: "color list" where
  "KeyColors =
     [color_New [FgRed], color_New [FgGreen], color_New [FgYellow], color_New [FgBlue],
      color_New [FgMagenta], color_New [FgCyan],
      color_New [FgHiRed], color_New [FgHiGreen], color_New [FgHiYellow], color_New [FgHiBlue],
      color_New [FgHiMagenta], color_New [FgHiCyan]]"

text \<open>
  Both indices are inside the twelve-element palette: the constant \<open>6\<close>, and a remainder
  modulo \<^verbatim>\<open>uint32(len(KeyColors))\<close>.
\<close>

definition getKeyColor0 :: "string \<Rightarrow> color" where
  "getKeyColor0 key =
     (if key = ''error'' then KeyColors ! 6
      else
        (let sum = ChecksumIEEE key;
             sum' = sum mod (word_of_nat (length KeyColors))
         in KeyColors ! unat sum'))"

definition New0 :: "'w \<Rightarrow> ('w, int) Handler" where
  "New0 w = \<lparr>Writer = w, Timestamp = [], lengths = Map.empty, buf = []\<rparr>"

definition lengths0_at :: "(string \<rightharpoonup> int) \<Rightarrow> string \<Rightarrow> int" where
  "lengths0_at m name = (case m name of None \<Rightarrow> 0 | Some l \<Rightarrow> l)"

text \<open>The body of the loop over the names (lines 97 to 113); no result of a write is read.\<close>

definition writeNameValue0 ::
  "'w ext \<Rightarrow> ('w, int) Handler \<Rightarrow> Entry \<Rightarrow> string \<Rightarrow> nat \<Rightarrow> string list \<Rightarrow> ('w, int) Handler" where
  "writeNameValue0 x h e name i names =
     (let val = Get (Fields e) name;
          sw = StringWidth x (Sprintf_v x val);
          h1 = h\<lparr>lengths := (lengths h)(name \<mapsto> max (lengths0_at (lengths h) name) sw)\<rparr>;
          l = lengths0_at (lengths h1) name;
          (l, h2) = (if sw + 20 < l then (sw, h1\<lparr>lengths := (lengths h1)(name \<mapsto> sw)\<rparr>)
                     else (l, h1))
      in if isTypeRightAlignable val then
           snd (Fprintf_buf h2
                  ('' '' @ Sprint x (getKeyColor0 name) name @ ''=''
                   @ Sprintf_wv x (lengths0_at (lengths h2) name) val))
         else
           (let pad = (if sw < l \<and> i + 1 \<noteq> length names
                       then replicate (nat (l - sw)) CHR '' '' else [])
            in snd (Fprintf_buf h2
                      ('' '' @ Sprint x (getKeyColor0 name) name @ ''='' @ Sprintf_v x val @ pad))))"

fun fields_loop0 ::
  "'w ext \<Rightarrow> Entry \<Rightarrow> string list \<Rightarrow> nat \<Rightarrow> string list \<Rightarrow> ('w, int) Handler \<Rightarrow>
   ('w, int) Handler" where
  "fields_loop0 x e names i [] h = h"
| "fields_loop0 x e names i (name # rest) h =
     (if name = ''source'' then fields_loop0 x e names (i + 1) rest h
      else fields_loop0 x e names (i + 1) rest (writeNameValue0 x h e name i names))"

text \<open>
  \<^verbatim>\<open>HandleLog\<close> of the earlier version: the count and the error of \<^verbatim>\<open>WriteTo\<close> are dropped,
  the buffer is reset and \<^verbatim>\<open>nil\<close> is returned.
\<close>

definition HandleLog0 ::
  "'w ext \<Rightarrow> ('w, int) Handler \<Rightarrow> Entry \<Rightarrow> panic + (error option \<times> ('w, int) Handler)" where
  "HandleLog0 x h e =
     (case index LevelColors0 (Level e) of
        Inl p \<Rightarrow> Inl p
      | Inr colr \<Rightarrow>
     (case index LevelSymbol (Level e) of
        Inl p \<Rightarrow> Inl p
      | Inr level \<Rightarrow>
     (let names = sortNames e (Names (Fields e));
          sw = StringWidth x (Message e);
          h1 = h\<lparr>lengths := (lengths h)(''msg'' \<mapsto> max (lengths0_at (lengths h) ''msg'') sw)\<rparr>;
          h2 = snd (Fprintf_buf h1
                      (color_Fprintf x colr
                         (Format x (Timestamp h1) (Entry_Timestamp e) @ '' '' @ level)));
          h3 = snd (Fprintf_buf h2
                      ('' '' @ Sprintf_ws x (- lengths0_at (lengths h2) ''msg'') (Message e)));
          h4 = fields_loop0 x e names 0 names h3;
          h5 = snd (Fprintf_buf h4 [CHR 0x0A])
      in case WriteTo x h5 of
           Inl p \<Rightarrow> Inl p
         | Inr (_, h6) \<Rightarrow> Inr (None, h6\<lparr>buf := []\<rparr>))))"

section \<open>An environment for concrete runs\<close>

text \<open>
  For runs on concrete inputs: values are strings of printable ASCII or integers, whose
  display width is their number of bytes; \<^verbatim>\<open>%*v\<close> pads on the left to the width; colors are
  switched off (\<^verbatim>\<open>color.NoColor\<close>), and the time is not printed.  The writer keeps the
  slices it is given; \<open>accepting\<close> takes every slice, \<open>failing\<close> returns an error.
\<close>

definition example_v :: "val \<Rightarrow> string" where
  "example_v v =
     (case v of StringV s \<Rightarrow> s | BytesV s \<Rightarrow> s | IntV i \<Rightarrow> Sprintf_d (sint i) | _ \<Rightarrow> [])"

definition accepting :: "string list \<Rightarrow> string \<Rightarrow> (nat \<times> error option) \<times> string list" where
  "accepting w p = ((length p, None), w @ [p])"

definition failing :: "string list \<Rightarrow> string \<Rightarrow> (nat \<times> error option) \<times> string list" where
  "failing w p = ((0, Some (WriteError ''closed'')), w @ [p])"

definition example_ext ::
  "(string list \<Rightarrow> string \<Rightarrow> (nat \<times> error option) \<times> string list) \<Rightarrow> string list ext" where
  "example_ext wr =
     \<lparr>Sprintf_g4 = (\<lambda>d k. []),
      StringWidth = (\<lambda>s. int (length s)),
      Sprintf_v = example_v,
      Sprintf_wv = (\<lambda>w v. replicate (nat w - length (example_v v)) CHR '' '' @ example_v v),
      Sprintf_ws = (\<lambda>w s. if w < 0 then s @ replicate (nat (- w) - length s) CHR '' ''
                           else replicate (nat w - length s) CHR '' '' @ s),
      Format = (\<lambda>layout t. []),
      Sprint = (\<lambda>c s. s),
      color_Fprintf = (\<lambda>c s. s),
      Write = wr\<rparr>"

text \<open>A new handler of the current version and one of the earlier version.\<close>

definition example_handler :: "(string list, keyStat) Handler" where
  "example_handler = New []"

definition example_handler0 :: "(string list, int) Handler" where
  "example_handler0 = New0 []"

text \<open>
  A record with a right-alignable field, a left-alignable field and a field named
  \<^verbatim>\<open>source\<close>, at level info.
\<close>

definition example_entry :: Entry where
  "example_entry =
     \<lparr>Level = InfoLevel, Message = ''starting'', Entry_Timestamp = 0,
      Fields = [(''name'', StringV ''worker-1''), (''source'', StringV ''main.go''),
                (''count'', IntV 42)]\<rparr>"

text \<open>A call of \<^verbatim>\<open>writeNameValue\<close> for the only field of a record, a string.\<close>

definition example_call :: "string \<Rightarrow> string \<Rightarrow> call" where
  "example_call name s =
     \<lparr>call_name = name,
      call_entry = \<lparr>Level = InfoLevel, Message = [], Entry_Timestamp = 0,
                    Fields = [(name, StringV s)]\<rparr>,
      call_index = 0,
      call_names = [name]\<rparr>"

text \<open>
  A record with a field of type \<^verbatim>\<open>time.Duration\<close> (one year, two months, one week and five
  nanoseconds), an integer field and a string field, at level info.
\<close>

definition example_elapsed :: Entry where
  "example_elapsed =
     \<lparr>Level = InfoLevel, Message = [], Entry_Timestamp = 0,
      Fields = [(''elapsed'', DurationV 37324800000000005), (''n'', IntV 42),
                (''a'', StringV ''zz'')]\<rparr>"

section \<open>Properties of \<open>Duration\<close>\<close>

text \<open>
  The digits that \<open>FormatUint\<close> prints denote the number printed.
\<close>

lemma digit_char_code: "k < 10 \<Longrightarrow> of_char (digit_char k) = 48 + k"
proof -
  assume "k < 10"
  then have "k \<in> {0, 1, 2, 3, 4, 5, 6, 7, 8, 9}" by auto
  then show ?thesis by (auto simp: digit_char_def)
qed

lemma digits_value_snoc: "digits_value (s @ [c]) = 10 * digits_value s + (of_char c - 48)"
  by (simp add: digits_value_def)

lemma digits_value_FormatUint: "digits_value (FormatUint n) = n"
proof (induction n rule: FormatUint.induct)
  case (1 n)
  show ?case
  proof (cases "n < 10")
    case True
    then show ?thesis
      by (subst FormatUint.simps) (simp add: digits_value_def digit_char_code)
  next
    case False
    have "n mod 10 < 10" by simp
    then have d: "of_char (digit_char (n mod 10)) = 48 + n mod 10"
      by (rule digit_char_code)
    from False 1 have "digits_value (FormatUint (n div 10)) = n div 10" by simp
    with False d show ?thesis
      by (subst FormatUint.simps) (simp add: digits_value_snoc)
  qed
qed

text \<open>
  Claim C9.  For every duration \<open>d\<close> with \<open>0 \<le> d < 1000\<close> nanoseconds (below one
  microsecond), \<open>Duration\<close> returns the decimal digits of the exact nanosecond count
  followed by \<^verbatim>\<open>ns\<close>; in particular \<open>Duration 500\<close> is \<^verbatim>\<open>500ns\<close> and \<open>Duration 0\<close> is
  \<^verbatim>\<open>0ns\<close>.
\<close>

theorem Duration_nanoseconds:
  "(\<forall>d. 0 \<le> d \<and> d < 1000 \<longrightarrow>
      Duration g4 d = FormatUint (nat d) @ ''ns'' \<and> digits_value (FormatUint (nat d)) = nat d)
   \<and> Duration g4 500 = ''500ns''
   \<and> Duration g4 0 = ''0ns''"
proof -
  have "Duration g4 d = FormatUint (nat d) @ ''ns''" if "0 \<le> d" "d < 1000" for d
    using that by (simp add: Duration_def time_defs Sprintf_d_def)
  moreover have "Duration g4 500 = ''500ns''"
    by (simp add: Duration_def time_defs Sprintf_d_def FormatUint.simps digit_char_def)
  moreover have "Duration g4 0 = ''0ns''"
    by (simp add: Duration_def time_defs Sprintf_d_def FormatUint.simps digit_char_def)
  ultimately show ?thesis
    by (simp add: digits_value_FormatUint)
qed

theorem Duration_nanoseconds_witness:
  "(0::int) \<le> 999 \<and> (999::int) < 1000 \<and> Duration (\<lambda>d k. []) 999 = ''999ns''
   \<and> digits_value ''999'' = 999"
proof -
  have f: "FormatUint (nat 999) = ''999''"
    by (simp add: FormatUint.simps digit_char_def)
  have "Duration (\<lambda>d k. []) 999 = FormatUint (nat 999) @ ''ns''
        \<and> digits_value (FormatUint (nat 999)) = nat 999"
    using Duration_nanoseconds [of "\<lambda>d k. []", THEN conjunct1, rule_format, of 999] by simp
  with f show ?thesis by simp
qed

text \<open>
  From one minute up to one year the loop meets its first matching unit at an index
  \<open>i > 0\<close> while \<open>lst\<close> still is \<open>-1\<close>, so the test \<^verbatim>\<open>i-1 != last\<close> leaves the loop
  before anything is appended: the result is the empty string.
\<close>

lemma Duration_below_year:
  assumes "Minute \<le> d" "d < Hour * 24 * 365"
  shows "Duration g4 d = []"
proof -
  have m: "\<not> d < Minute" "\<not> d < Second" "\<not> d < Millisecond" "\<not> d < Microsecond"
    using assms(1) by (simp_all add: time_defs)
  have "Duration_loop durations 0 (- 1) d [] = []"
    using assms by (simp add: durations_def time_defs)
  with m show ?thesis by (simp add: Duration_def)
qed

text \<open>
  Claim C1.  The claim is that a duration of at least one minute is decomposed greedily from
  its largest matching unit and that \<open>Duration 90000000000\<close> (90 seconds) is a
  minute/second decomposition such as \<^verbatim>\<open>1m30s\<close>.  The code returns the empty string for
  90 seconds.
\<close>

theorem Duration_90_seconds: "Duration g4 90000000000 = []"
  by (simp add: Duration_def time_defs durations_def)

text \<open>A duration of at least one year is decomposed, up to the five-character bound.\<close>

lemma Duration_year_month_week:
  "Duration g4 (Hour * 24 * 365 + Hour * 24 * 30 * 2 + Hour * 24 * 7 + 5) = ''1y2m1w''"
  by (simp add: Duration_def time_defs durations_def Sprintf_d_def FormatUint.simps digit_char_def)

section \<open>Properties of the classifier\<close>

text \<open>The derivative matcher decides the denoted set.\<close>

lemma conc_Nil: "[] \<in> conc A B \<longleftrightarrow> [] \<in> A \<and> [] \<in> B"
  by (auto simp: conc_def)

lemma conc_Cons:
  "c # w \<in> conc A B \<longleftrightarrow>
     (\<exists>u v. w = u @ v \<and> c # u \<in> A \<and> v \<in> B) \<or> ([] \<in> A \<and> c # w \<in> B)"
proof
  assume "c # w \<in> conc A B"
  then obtain p q where pq: "c # w = p @ q" "p \<in> A" "q \<in> B"
    by (auto simp: conc_def)
  show "(\<exists>u v. w = u @ v \<and> c # u \<in> A \<and> v \<in> B) \<or> ([] \<in> A \<and> c # w \<in> B)"
  proof (cases p)
    case Nil
    with pq show ?thesis by simp
  next
    case (Cons a p')
    with pq have "w = p' @ q" "c # p' \<in> A" by simp_all
    with pq(3) show ?thesis by blast
  qed
next
  assume "(\<exists>u v. w = u @ v \<and> c # u \<in> A \<and> v \<in> B) \<or> ([] \<in> A \<and> c # w \<in> B)"
  then show "c # w \<in> conc A B"
  proof
    assume "\<exists>u v. w = u @ v \<and> c # u \<in> A \<and> v \<in> B"
    then obtain u v where "w = u @ v" "c # u \<in> A" "v \<in> B" by blast
    then have "(c # u) @ v \<in> conc A B" unfolding conc_def by blast
    with \<open>w = u @ v\<close> show ?thesis by simp
  next
    assume "[] \<in> A \<and> c # w \<in> B"
    then have "[] @ (c # w) \<in> conc A B" unfolding conc_def by blast
    then show ?thesis by simp
  qed
qed

lemma star_Cons:
  "c # w \<in> star A \<longleftrightarrow> (\<exists>u v. w = u @ v \<and> c # u \<in> A \<and> v \<in> star A)"
proof
  assume "c # w \<in> star A"
  then show "\<exists>u v. w = u @ v \<and> c # u \<in> A \<and> v \<in> star A"
  proof (induction "c # w" rule: star.induct)
    case (star_more p q)
    show ?case
    proof (cases p)
      case Nil
      with star_more show ?thesis by simp
    next
      case (Cons a p')
      with star_more.hyps(1,2,4) have "w = p' @ q" "c # p' \<in> A" "q \<in> star A" by simp_all
      then show ?thesis by blast
    qed
  qed
next
  assume "\<exists>u v. w = u @ v \<and> c # u \<in> A \<and> v \<in> star A"
  then obtain u v where "w = u @ v" "c # u \<in> A" "v \<in> star A" by blast
  then have "(c # u) @ v \<in> star A" by (intro star_more)
  with \<open>w = u @ v\<close> show "c # w \<in> star A" by simp
qed

lemma nullable_lang: "nullable r \<longleftrightarrow> [] \<in> lang r"
  by (induction r) (auto simp: conc_Nil intro: star_empty)

lemma lang_deriv: "w \<in> lang (deriv c r) \<longleftrightarrow> c # w \<in> lang r"
proof (induction r arbitrary: w)
  case (Seq a b)
  then show ?case
    by (auto simp: conc_Cons nullable_lang) (auto simp: conc_def)
next
  case (Star a)
  then show ?case
    by (auto simp: star_Cons conc_def)
qed auto

lemma matches_lang: "matches r w \<longleftrightarrow> w \<in> lang r"
  by (induction w arbitrary: r) (simp_all add: nullable_lang lang_deriv)

text \<open>The sets that the parts of the pattern denote.\<close>

lemma star_class: "star {[r] | r. P r} = {w. list_all P w}"
proof (intro set_eqI iffI)
  fix w
  assume "w \<in> star {[r] | r. P r}"
  then show "w \<in> {w. list_all P w}"
    by (induction rule: star.induct) auto
next
  fix w
  assume "w \<in> {w. list_all P w}"
  then have "list_all P w" by simp
  then show "w \<in> star {[r] | r. P r}"
  proof (induction w)
    case Nil
    show ?case by (rule star_empty)
  next
    case (Cons r w)
    then have "[r] \<in> {[r] | r. P r}" "w \<in> star {[r] | r. P r}" by auto
    then have "[r] @ w \<in> star {[r] | r. P r}" by (rule star_more)
    then show ?case by simp
  qed
qed

lemma conc_class:
  "conc {[r] | r. P r} B = {w. \<exists>r v. w = r # v \<and> P r \<and> v \<in> B}"
proof (intro set_eqI iffI)
  fix w
  assume "w \<in> conc {[r] | r. P r} B"
  then show "w \<in> {w. \<exists>r v. w = r # v \<and> P r \<and> v \<in> B}"
    by (auto simp: conc_def)
next
  fix w
  assume "w \<in> {w. \<exists>r v. w = r # v \<and> P r \<and> v \<in> B}"
  then obtain r v where "w = [r] @ v" "P r" "v \<in> B" by auto
  then show "w \<in> conc {[r] | r. P r} B"
    unfolding conc_def by blast
qed

lemma lang_Plus_Class:
  "lang (Plus (Class cs)) = {w. w \<noteq> [] \<and> list_all (in_class cs) w}"
proof -
  have "lang (Plus (Class cs)) = conc {[r] | r. in_class cs r} {w. list_all (in_class cs) w}"
    by (simp add: Plus_def star_class)
  also have "\<dots> = {w. w \<noteq> [] \<and> list_all (in_class cs) w}"
    unfolding conc_class by (auto simp: neq_Nil_conv)
  finally show ?thesis .
qed

lemma lang_Opt: "lang (Opt r) = insert [] (lang r)"
  by (auto simp: Opt_def)

lemma lang_Repeat_0:
  "lang (Repeat (Class cs) 0 n) = {w. length w \<le> n \<and> list_all (in_class cs) w}"
proof (induction n)
  case 0
  show ?case by auto
next
  case (Suc n)
  have "lang (Repeat (Class cs) 0 (Suc n)) =
          insert [] (conc {[r] | r. in_class cs r} {w. length w \<le> n \<and> list_all (in_class cs) w})"
    by (simp add: lang_Opt Suc)
  also have "\<dots> = {w. length w \<le> Suc n \<and> list_all (in_class cs) w}"
    unfolding conc_class
  proof (intro set_eqI iffI)
    fix w
    assume "w \<in> insert [] {w. \<exists>r v. w = r # v \<and> in_class cs r
                \<and> v \<in> {w. length w \<le> n \<and> list_all (in_class cs) w}}"
    then show "w \<in> {w. length w \<le> Suc n \<and> list_all (in_class cs) w}" by auto
  next
    fix w
    assume "w \<in> {w. length w \<le> Suc n \<and> list_all (in_class cs) w}"
    then show "w \<in> insert [] {w. \<exists>r v. w = r # v \<and> in_class cs r
                \<and> v \<in> {w. length w \<le> n \<and> list_all (in_class cs) w}}"
      by (cases w) auto
  qed
  finally show ?case .
qed

lemma Repeat_1_5: "Repeat r 1 5 = Seq r (Repeat r 0 4)"
proof -
  have "Repeat r (Suc 0) 5 = Seq r (Repeat r 0 (5 - 1))" by (rule Repeat.simps)
  then show ?thesis by simp
qed

lemma lang_Opt_Repeat_1_5:
  "lang (Opt (Repeat (Class cs) 1 5)) = {w. length w \<le> 5 \<and> list_all (in_class cs) w}"
proof -
  have "lang (Opt (Repeat (Class cs) 1 5)) =
          insert [] (conc {[r] | r. in_class cs r} {w. length w \<le> 4 \<and> list_all (in_class cs) w})"
    by (simp add: lang_Opt Repeat_1_5 lang_Repeat_0)
  also have "\<dots> = {w. length w \<le> 5 \<and> list_all (in_class cs) w}"
    unfolding conc_class
  proof (intro set_eqI iffI)
    fix w
    assume "w \<in> insert [] {w. \<exists>r v. w = r # v \<and> in_class cs r
                \<and> v \<in> {w. length w \<le> 4 \<and> list_all (in_class cs) w}}"
    then show "w \<in> {w. length w \<le> 5 \<and> list_all (in_class cs) w}" by auto
  next
    fix w
    assume "w \<in> {w. length w \<le> 5 \<and> list_all (in_class cs) w}"
    then show "w \<in> insert [] {w. \<exists>r v. w = r # v \<and> in_class cs r
                \<and> v \<in> {w. length w \<le> 4 \<and> list_all (in_class cs) w}}"
      by (cases w) auto
  qed
  finally show ?thesis .
qed

lemma in_class_digit: "in_class digit_class = is_digit"
  by (auto simp: in_class_def digit_class_def is_digit_def fun_eq_iff)

lemma in_class_letter: "in_class letter_class = fold_letter"
  by (auto simp: in_class_def letter_class_def fold_letter_def ascii_letter_def fun_eq_iff)

lemma lang_single: "lang (Class [(a, a)]) = {[a]}"
  by (auto simp: in_class_def)

lemma lang_reNumType: "w \<in> lang reNumType \<longleftrightarrow> numeric_looking fold_letter w"
proof -
  let ?D = "{w. w \<noteq> [] \<and> list_all is_digit w}"
  let ?F = "insert [] (conc {[0x2E]} ?D)"
  let ?S = "insert [] {[0x20 :: rune]}"
  let ?L = "{w. length w \<le> 5 \<and> list_all fold_letter w}"
  have l: "lang reNumType = conc ?D (conc ?F (conc ?S ?L))"
    unfolding reNumType_def lang.simps(5) lang_Plus_Class lang_Opt_Repeat_1_5
    unfolding lang_Opt lang.simps(5) lang_Plus_Class lang_single in_class_digit in_class_letter
    by (rule refl)
  show ?thesis
  proof
    assume "w \<in> lang reNumType"
    then obtain ds fs sp ls where w: "w = ds @ fs @ sp @ ls"
      and "ds \<in> ?D" "fs \<in> ?F" "sp \<in> ?S" "ls \<in> ?L"
      unfolding l conc_def by blast
    moreover from \<open>fs \<in> ?F\<close> have "fs = [] \<or> (\<exists>gs. fs = 0x2E # gs \<and> gs \<noteq> [] \<and> list_all is_digit gs)"
      by (auto simp: conc_def)
    ultimately show "numeric_looking fold_letter w"
      unfolding numeric_looking_def by blast
  next
    assume "numeric_looking fold_letter w"
    then obtain ds fs sp ls where w: "w = ds @ fs @ sp @ ls"
      and ds: "ds \<noteq> []" "list_all is_digit ds"
      and fs: "fs = [] \<or> (\<exists>gs. fs = 0x2E # gs \<and> gs \<noteq> [] \<and> list_all is_digit gs)"
      and sp: "sp = [] \<or> sp = [0x20]"
      and ls: "length ls \<le> 5" "list_all fold_letter ls"
      unfolding numeric_looking_def by blast
    from fs have "fs \<in> ?F" by (auto simp: conc_def)
    moreover from sp have "sp \<in> ?S" by auto
    moreover from ls have "ls \<in> ?L" by simp
    ultimately have "fs @ sp @ ls \<in> conc ?F (conc ?S ?L)"
      unfolding conc_def by blast
    moreover from ds have "ds \<in> ?D" by simp
    ultimately have "ds @ fs @ sp @ ls \<in> conc ?D (conc ?F (conc ?S ?L))"
      unfolding conc_def by blast
    then show "w \<in> lang reNumType"
      unfolding l w .
  qed
qed

lemma MatchString_reNumType:
  "MatchString reNumType s \<longleftrightarrow> numeric_looking fold_letter (runes s)"
  by (simp add: MatchString_def matches_lang lang_reNumType)

text \<open>Evaluation of the matcher on concrete strings.\<close>

lemma Repeat_0_4:
  "Repeat r 0 4 = Opt (Seq r (Opt (Seq r (Opt (Seq r (Opt (Seq r Eps)))))))"
  by (simp add: numeral_eq_Suc)

lemmas reNumType_eval =
  isTypeRightAlignable_def MatchString_def runes_def reNumType_def Plus_def Opt_def Repeat_1_5
  Repeat_0_4
  in_class_def digit_class_def letter_class_def cont_def second_lo_def second_hi_def RuneError_def


text \<open>A string of ASCII bytes decodes to its bytes.\<close>

lemma decode_ascii: "list_all (\<lambda>b. b < 0x80) bs \<Longrightarrow> decode bs = bs"
  by (induction bs) simp_all

lemma runes_ascii:
  "list_all (\<lambda>c. (of_char c :: nat) < 0x80) s \<Longrightarrow> runes s = map of_char s"
  unfolding runes_def by (rule decode_ascii) (simp add: list_all_iff)

lemma numeric_looking_set:
  assumes "numeric_looking letter rs" and "r \<in> set rs"
  shows "is_digit r \<or> r = 0x2E \<or> r = 0x20 \<or> letter r"
proof -
  from assms(1) obtain ds fs sp ls where rs: "rs = ds @ fs @ sp @ ls"
    and ds: "list_all is_digit ds"
    and fs: "fs = [] \<or> (\<exists>gs. fs = 0x2E # gs \<and> gs \<noteq> [] \<and> list_all is_digit gs)"
    and sp: "sp = [] \<or> sp = [0x20]"
    and ls: "list_all letter ls"
    unfolding numeric_looking_def by blast
  from assms(2) rs consider "r \<in> set ds" | "r \<in> set fs" | "r \<in> set sp" | "r \<in> set ls"
    by auto
  then show ?thesis
  proof cases
    case 1
    with ds show ?thesis by (simp add: list_all_iff)
  next
    case 2
    with fs show ?thesis by (auto simp: list_all_iff)
  next
    case 3
    with sp show ?thesis by auto
  next
    case 4
    with ls show ?thesis by (simp add: list_all_iff)
  qed
qed

lemma numeric_looking_cong:
  assumes "\<And>r. r \<in> set rs \<Longrightarrow> letter r = letter' r"
  shows "numeric_looking letter rs \<longleftrightarrow> numeric_looking letter' rs"
proof -
  have "numeric_looking l' rs" if "numeric_looking l rs" and "\<And>r. r \<in> set rs \<Longrightarrow> l r = l' r"
    for l l'
  proof -
    from that(1) obtain ds fs sp ls where rs: "rs = ds @ fs @ sp @ ls"
      and rest: "ds \<noteq> []" "list_all is_digit ds"
        "fs = [] \<or> (\<exists>gs. fs = 0x2E # gs \<and> gs \<noteq> [] \<and> list_all is_digit gs)"
        "sp = [] \<or> sp = [0x20]" "length ls \<le> 5"
      and ls: "list_all l ls"
      unfolding numeric_looking_def by blast
    from ls rs that(2) have "list_all l' ls"
      by (simp add: list_all_iff)
    with rs rest show ?thesis
      unfolding numeric_looking_def by blast
  qed
  from this [of letter letter'] this [of letter' letter] assms show ?thesis
    by auto
qed

lemma fold_letter_ascii: "r < 0x80 \<Longrightarrow> fold_letter r = ascii_letter r"
  by (auto simp: fold_letter_def)

lemma MatchString_reNumType_ascii:
  assumes "list_all (\<lambda>c. (of_char c :: nat) < 0x80) s"
  shows "MatchString reNumType s \<longleftrightarrow> numeric_looking ascii_letter (map of_char s)"
proof -
  have "numeric_looking fold_letter (map of_char s)
          \<longleftrightarrow> numeric_looking ascii_letter (map of_char s)"
  proof (rule numeric_looking_cong)
    fix r :: nat
    assume "r \<in> set (map of_char s)"
    with assms have "r < 0x80" by (auto simp: list_all_iff)
    then show "fold_letter r = ascii_letter r" by (rule fold_letter_ascii)
  qed
  with assms show ?thesis
    by (simp add: MatchString_reNumType runes_ascii)
qed

text \<open>
  Claim C5, as amended.  The classifier is total.  Every value whose dynamic type is one of
  the unsigned or signed integer types, a floating-point or complex type, \<^verbatim>\<open>time.Duration\<close> or
  a pointer to it classifies RIGHT.  A string or a byte slice classifies RIGHT exactly when its
  runes are digits, optionally a dot and digits, optionally one space, and at most five
  letters, where a letter is an ASCII letter of either case or one of the two runes that
  case folding equates with one, \<^verbatim>\<open>U+017F\<close> and \<^verbatim>\<open>U+212A\<close>; for a string of ASCII bytes the
  letters are the ASCII letters.  So \<^verbatim>\<open>10\<close> and \<^verbatim>\<open>3.5 ms\<close> are RIGHT, \<^verbatim>\<open>abc\<close> and \<^verbatim>\<open>-\<close> are
  LEFT.  Every other value classifies LEFT.
\<close>

theorem isTypeRightAlignable_classifies:
  "isTypeRightAlignable (UintV u) \<and> isTypeRightAlignable (Uint8V u8)
   \<and> isTypeRightAlignable (Uint16V u16) \<and> isTypeRightAlignable (Uint32V u32)
   \<and> isTypeRightAlignable (Uint64V u64)
   \<and> isTypeRightAlignable (IntV i) \<and> isTypeRightAlignable (Int8V i8)
   \<and> isTypeRightAlignable (Int16V i16) \<and> isTypeRightAlignable (Int32V i32)
   \<and> isTypeRightAlignable (Int64V i64)
   \<and> isTypeRightAlignable (Float32V f32) \<and> isTypeRightAlignable (Float64V f64)
   \<and> isTypeRightAlignable (Complex64V re32 im32) \<and> isTypeRightAlignable (Complex128V re64 im64)
   \<and> isTypeRightAlignable (DurationV d) \<and> isTypeRightAlignable (DurationPtr p)
   \<and> (isTypeRightAlignable (StringV s) \<longleftrightarrow> numeric_looking fold_letter (runes s))
   \<and> (isTypeRightAlignable (BytesV s) \<longleftrightarrow> numeric_looking fold_letter (runes s))
   \<and> (list_all (\<lambda>c. (of_char c :: nat) < 0x80) s \<longrightarrow>
        (isTypeRightAlignable (StringV s) \<longleftrightarrow> numeric_looking ascii_letter (map of_char s))
        \<and> (isTypeRightAlignable (BytesV s) \<longleftrightarrow> numeric_looking ascii_letter (map of_char s)))
   \<and> \<not> isTypeRightAlignable NilV \<and> \<not> isTypeRightAlignable (OtherV t)
   \<and> isTypeRightAlignable (StringV ''10'') \<and> isTypeRightAlignable (StringV ''3.5 ms'')
   \<and> \<not> isTypeRightAlignable (StringV ''abc'') \<and> \<not> isTypeRightAlignable (StringV ''-'')"
proof -
  have num: "isTypeRightAlignable (UintV u)" "isTypeRightAlignable (Uint8V u8)"
    "isTypeRightAlignable (Uint16V u16)" "isTypeRightAlignable (Uint32V u32)"
    "isTypeRightAlignable (Uint64V u64)"
    "isTypeRightAlignable (IntV i)" "isTypeRightAlignable (Int8V i8)"
    "isTypeRightAlignable (Int16V i16)" "isTypeRightAlignable (Int32V i32)"
    "isTypeRightAlignable (Int64V i64)"
    "isTypeRightAlignable (Float32V f32)" "isTypeRightAlignable (Float64V f64)"
    "isTypeRightAlignable (Complex64V re32 im32)" "isTypeRightAlignable (Complex128V re64 im64)"
    "isTypeRightAlignable (DurationV d)" "isTypeRightAlignable (DurationPtr p)"
    by (simp_all add: isTypeRightAlignable_def)
  have str: "isTypeRightAlignable (StringV s) \<longleftrightarrow> numeric_looking fold_letter (runes s)"
    "isTypeRightAlignable (BytesV s) \<longleftrightarrow> numeric_looking fold_letter (runes s)"
    by (simp_all add: isTypeRightAlignable_def MatchString_reNumType)
  have ascii: "list_all (\<lambda>c. (of_char c :: nat) < 0x80) s \<longrightarrow>
        (isTypeRightAlignable (StringV s) \<longleftrightarrow> numeric_looking ascii_letter (map of_char s))
        \<and> (isTypeRightAlignable (BytesV s) \<longleftrightarrow> numeric_looking ascii_letter (map of_char s))"
    by (simp add: isTypeRightAlignable_def MatchString_reNumType_ascii)
  have other: "\<not> isTypeRightAlignable NilV" "\<not> isTypeRightAlignable (OtherV t)"
    by (simp_all add: isTypeRightAlignable_def)
  have ex: "isTypeRightAlignable (StringV ''10'')" "isTypeRightAlignable (StringV ''3.5 ms'')"
    "\<not> isTypeRightAlignable (StringV ''abc'')" "\<not> isTypeRightAlignable (StringV ''-'')"
    by (simp_all add: reNumType_eval)
  from num str ascii other ex show ?thesis
    by blast
qed

theorem isTypeRightAlignable_classifies_witness:
  "list_all (\<lambda>c. (of_char c :: nat) < 0x80) ''1.5 KB''
   \<and> isTypeRightAlignable (StringV ''1.5 KB'')
   \<and> numeric_looking ascii_letter (map of_char ''1.5 KB'')"
proof -
  have a: "list_all (\<lambda>c. (of_char c :: nat) < 0x80) ''1.5 KB''"
    by simp
  have r: "isTypeRightAlignable (StringV ''1.5 KB'')"
    by (simp add: reNumType_eval)
  from isTypeRightAlignable_classifies [of _ _ _ _ _ _ _ _ _ _ _ _ _ _ _ _ _ _ "''1.5 KB''"] a r
  show ?thesis by blast
qed

text \<open>
  With the ASCII letters as the letters of the pattern, the claim fails on a digit followed by
  the KELVIN SIGN (UTF-8 bytes E2 84 AA): the classifier says RIGHT.
\<close>

theorem isTypeRightAlignable_kelvin:
  "isTypeRightAlignable (StringV [CHR ''1'', CHR 0xE2, CHR 0x84, CHR 0xAA])
   \<and> \<not> numeric_looking ascii_letter (runes [CHR ''1'', CHR 0xE2, CHR 0x84, CHR 0xAA])"
proof -
  have r: "runes [CHR ''1'', CHR 0xE2, CHR 0x84, CHR 0xAA] = [0x31, 0x212A]"
    by (simp add: reNumType_eval)
  have "\<not> numeric_looking ascii_letter [0x31, 0x212A]"
  proof
    assume "numeric_looking ascii_letter [0x31, 0x212A]"
    then have "is_digit 0x212A \<or> (0x212A :: nat) = 0x2E \<or> (0x212A :: nat) = 0x20
               \<or> ascii_letter 0x212A"
      by (rule numeric_looking_set) simp
    then show False
      by (simp add: is_digit_def ascii_letter_def)
  qed
  moreover have "isTypeRightAlignable (StringV [CHR ''1'', CHR 0xE2, CHR 0x84, CHR 0xAA])"
    by (simp add: reNumType_eval)
  ultimately show ?thesis
    by (simp add: r)
qed

section \<open>Properties of the order of the names\<close>

text \<open>\<open>strings_Compare\<close> is the lexicographic comparison of the bytes.\<close>

lemma strings_Compare_lexord:
  "strings_Compare a b = - 1 \<longleftrightarrow> (a, b) \<in> lexord {(c, d). (of_char c :: nat) < of_char d}"
proof (induction a b rule: strings_Compare.induct)
  case (4 a as b bs)
  have "(of_char a :: nat) = of_char b \<longleftrightarrow> a = b" by simp
  with 4 show ?case by (auto simp del: of_char_eq_iff)
qed simp_all

lemma strings_Compare_refl: "strings_Compare a a = 0"
  by (induction a) simp_all

lemma strings_Compare_total: "a \<noteq> b \<Longrightarrow> strings_Compare a b = - 1 \<or> strings_Compare b a = - 1"
proof (induction a b rule: strings_Compare.induct)
  case (4 a as b bs)
  show ?case
  proof (cases "(of_char a :: nat) = of_char b")
    case True
    then have "a = b" by simp
    with 4 show ?thesis by simp
  next
    case False
    then show ?thesis by auto
  qed
qed simp_all

lemma strings_Compare_Cons:
  "strings_Compare (a # as) (b # bs) = - 1 \<longleftrightarrow>
     (of_char a :: nat) < of_char b
     \<or> ((of_char a :: nat) = of_char b \<and> strings_Compare as bs = - 1)"
  by auto

lemma strings_Compare_trans:
  "strings_Compare a b = - 1 \<Longrightarrow> strings_Compare b c = - 1 \<Longrightarrow> strings_Compare a c = - 1"
proof (induction a b arbitrary: c rule: strings_Compare.induct)
  case 1
  then show ?case by simp
next
  case (2 b bs)
  then show ?case by (cases c) simp_all
next
  case (3 a as)
  then show ?case by simp
next
  case (4 a as b bs)
  from "4.prems"(2) obtain d ds where c: "c = d # ds"
    by (cases c) simp_all
  define x y z :: nat where "x = of_char a" and "y = of_char b" and "z = of_char d"
  from "4.prems"(1) have ab: "x < y \<or> (x = y \<and> strings_Compare as bs = - 1)"
    unfolding strings_Compare_Cons x_def y_def .
  from "4.prems"(2) have bc: "y < z \<or> (y = z \<and> strings_Compare bs ds = - 1)"
    unfolding c strings_Compare_Cons y_def z_def .
  have "x < z \<or> (x = z \<and> strings_Compare as ds = - 1)"
  proof (cases "x = y \<and> y = z")
    case True
    with ab bc have "strings_Compare as bs = - 1" "strings_Compare bs ds = - 1" by simp_all
    moreover from True have "\<not> (of_char a :: nat) < of_char b" "\<not> (of_char b :: nat) < of_char a"
      by (simp_all add: x_def y_def)
    ultimately have "strings_Compare as ds = - 1"
      using "4.IH" by blast
    with True show ?thesis by simp
  next
    case False
    with ab bc show ?thesis by linarith
  qed
  then show ?case
    unfolding c strings_Compare_Cons x_def z_def .
qed

text \<open>Insertion into a sorted list of distinct elements, for a strict total order.\<close>

lemma set_insert_by: "set (insert_by lt x ys) = insert x (set ys)"
  by (induction ys) auto

lemma distinct_insert_by: "distinct (insert_by lt x ys) \<longleftrightarrow> x \<notin> set ys \<and> distinct ys"
  by (induction ys) (auto simp: set_insert_by)

lemma set_sort_Slice: "set (sort_Slice lt xs) = set xs"
  by (induction xs) (simp_all add: sort_Slice_def set_insert_by)

lemma distinct_sort_Slice: "distinct (sort_Slice lt xs) \<longleftrightarrow> distinct xs"
proof (induction xs)
  case (Cons x xs)
  have "sort_Slice lt (x # xs) = insert_by lt x (sort_Slice lt xs)"
    by (simp add: sort_Slice_def)
  with Cons show ?case
    by (simp add: distinct_insert_by set_sort_Slice)
qed (simp add: sort_Slice_def)

lemma sorted_wrt_insert_by:
  assumes "sorted_wrt lt ys" and "x \<notin> set ys"
    and total: "\<And>a b. a \<noteq> b \<Longrightarrow> lt a b \<or> lt b a"
    and trans: "\<And>a b c. lt a b \<Longrightarrow> lt b c \<Longrightarrow> lt a c"
  shows "sorted_wrt lt (insert_by lt x ys)"
  using assms(1,2)
proof (induction ys)
  case Nil
  then show ?case by simp
next
  case (Cons y ys)
  show ?case
  proof (cases "lt x y")
    case True
    with Cons.prems trans show ?thesis by auto
  next
    case False
    with Cons.prems total [of x y] have "lt y x" by auto
    with False Cons show ?thesis by (auto simp: set_insert_by)
  qed
qed

lemma sorted_wrt_sort_Slice:
  assumes "distinct xs"
    and total: "\<And>a b. a \<noteq> b \<Longrightarrow> lt a b \<or> lt b a"
    and trans: "\<And>a b c. lt a b \<Longrightarrow> lt b c \<Longrightarrow> lt a c"
  shows "sorted_wrt lt (sort_Slice lt xs)"
  using assms(1)
proof (induction xs)
  case Nil
  then show ?case by (simp add: sort_Slice_def)
next
  case (Cons x xs)
  have eq: "sort_Slice lt (x # xs) = insert_by lt x (sort_Slice lt xs)"
    by (simp add: sort_Slice_def)
  from Cons have "sorted_wrt lt (sort_Slice lt xs)" "x \<notin> set (sort_Slice lt xs)"
    by (simp_all add: set_sort_Slice)
  then show ?case
    unfolding eq by (rule sorted_wrt_insert_by) (fact total trans)+
qed

lemma distinct_Names: "distinct (Names f)"
  by (simp add: Names_def distinct_sort_Slice)

lemma set_Names: "set (Names f) = fst ` set f"
  by (simp add: Names_def set_sort_Slice)

lemma names_lt_total:
  "a \<noteq> b \<Longrightarrow> names_lt e a b \<or> names_lt e b a"
  using strings_Compare_total [of a b] by (auto simp: names_lt_def Let_def)

lemma names_lt_trans:
  assumes "names_lt e a b" and "names_lt e b c"
  shows "names_lt e a c"
proof -
  define r where "r = (\<lambda>n. isTypeRightAlignable (Get (Fields e) n))"
  have lt: "names_lt e u v \<longleftrightarrow> (if r u \<noteq> r v then r u else strings_Compare u v = - 1)"
    for u v
    by (simp add: names_lt_def Let_def r_def)
  show ?thesis
  proof (cases "r a = r b \<and> r b = r c")
    case True
    with assms have "strings_Compare a b = - 1" "strings_Compare b c = - 1"
      by (simp_all add: lt)
    then have "strings_Compare a c = - 1"
      by (rule strings_Compare_trans)
    with True show ?thesis by (simp add: lt)
  next
    case False
    with assms show ?thesis
      by (cases "r a"; cases "r b"; cases "r c") (simp_all add: lt)
  qed
qed

lemma distinct_sortNames: "distinct (sortNames e names) \<longleftrightarrow> distinct names"
  by (simp add: sortNames_def distinct_sort_Slice)

lemma set_sortNames: "set (sortNames e names) = set names"
  by (simp add: sortNames_def set_sort_Slice)

lemma sorted_wrt_sortNames:
  "distinct names \<Longrightarrow> sorted_wrt (names_lt e) (sortNames e names)"
  unfolding sortNames_def
proof (rule sorted_wrt_sort_Slice)
  show "names_lt e a b \<or> names_lt e b a" if "a \<noteq> b" for a b
    using that by (rule names_lt_total)
  show "names_lt e a c" if "names_lt e a b" "names_lt e b c" for a b c
    using that by (rule names_lt_trans)
qed

text \<open>
  The sorted list is unique: a strictly sorted list is determined by its elements, so every
  algorithm that sorts the names by \<open>names_lt\<close> returns what \<open>sortNames\<close> returns.
\<close>

lemma sorted_wrt_unique:
  assumes irrefl: "\<And>a. \<not> lt a a"
    and trans: "\<And>a b c. lt a b \<Longrightarrow> lt b c \<Longrightarrow> lt a c"
  shows "sorted_wrt lt xs \<Longrightarrow> sorted_wrt lt ys \<Longrightarrow> set xs = set ys \<Longrightarrow> xs = ys"
proof (induction xs arbitrary: ys)
  case Nil
  then show ?case by simp
next
  case (Cons x xs)
  from Cons.prems(3) obtain y ys' where ys: "ys = y # ys'"
    by (cases ys) auto
  from Cons.prems(1) have x_lt: "\<And>z. z \<in> set xs \<Longrightarrow> lt x z" and sx: "sorted_wrt lt xs"
    by simp_all
  from Cons.prems(2) ys have y_lt: "\<And>z. z \<in> set ys' \<Longrightarrow> lt y z" and sy: "sorted_wrt lt ys'"
    by simp_all
  have eq: "x = y"
  proof (rule ccontr)
    assume ne: "x \<noteq> y"
    from Cons.prems(3) ys have "x \<in> set (y # ys')" "y \<in> set (x # xs)" by auto
    with ne have "lt y x" "lt x y" using x_lt y_lt by auto
    then have "lt x x" by (rule trans [rotated])
    with irrefl show False by blast
  qed
  have "x \<notin> set xs" "y \<notin> set ys'"
    using x_lt y_lt irrefl by blast+
  with Cons.prems(3) ys eq have "set xs = set ys'" by auto
  with sx sy have "xs = ys'" by (rule Cons.IH)
  with eq ys show ?case by simp
qed

lemma names_lt_irrefl: "\<not> names_lt e a a"
  by (simp add: names_lt_def strings_Compare_refl)

lemma sortNames_unique:
  assumes "sorted_wrt (names_lt e) ns" and "set ns = set names" and "distinct names"
  shows "ns = sortNames e names"
proof (rule sorted_wrt_unique [of "names_lt e"])
  show "\<not> names_lt e a a" for a by (rule names_lt_irrefl)
  show "names_lt e a c" if "names_lt e a b" "names_lt e b c" for a b c
    using that by (rule names_lt_trans)
  show "sorted_wrt (names_lt e) ns" by fact
  show "sorted_wrt (names_lt e) (sortNames e names)"
    using assms(3) by (rule sorted_wrt_sortNames)
  show "set ns = set (sortNames e names)"
    using assms(2) by (simp add: set_sortNames)
qed

lemma names_lt_iff:
  "names_lt e a b \<longleftrightarrow>
     (isTypeRightAlignable (Get (Fields e) a) \<and> \<not> isTypeRightAlignable (Get (Fields e) b))
     \<or> (isTypeRightAlignable (Get (Fields e) a) = isTypeRightAlignable (Get (Fields e) b)
         \<and> strings_Compare a b = - 1)"
  by (auto simp: names_lt_def Let_def)

text \<open>
  Claim C6, as amended.  For every record, in the order in which the fields are rendered (the
  sorted names without \<^verbatim>\<open>source\<close>), every field whose value in the record the classifier
  \<^verbatim>\<open>isTypeRightAlignable\<close> finds right-alignable comes before every field whose value it does
  not, and within each of these two groups the names ascend lexicographically
  (\<open>strings_Compare\<close> is \<open>-1\<close> for each pair in order).  The rendered names are the names of the
  record's fields other than \<^verbatim>\<open>source\<close>, each once.  The two groups are those of the
  classifier on the value as the record holds it; they are not the alignment with which
  \<^verbatim>\<open>writeNameValue\<close> renders the field, which is the majority of the classifier's verdicts
  on the printed values of the name so far (\<open>rendered_right\<close>).
\<close>

theorem rendered_names_order:
  "sorted_wrt
     (\<lambda>a b.
        (isTypeRightAlignable (Get (Fields e) a) \<and> \<not> isTypeRightAlignable (Get (Fields e) b))
        \<or> (isTypeRightAlignable (Get (Fields e) a) = isTypeRightAlignable (Get (Fields e) b)
            \<and> strings_Compare a b = - 1))
     (rendered_names e)
   \<and> set (rendered_names e) = fst ` set (Fields e) - {''source''}
   \<and> distinct (rendered_names e)"
proof -
  have "sorted_wrt (names_lt e) (sortNames e (Names (Fields e)))"
    by (rule sorted_wrt_sortNames) (rule distinct_Names)
  then have "sorted_wrt (names_lt e) (rendered_names e)"
    unfolding rendered_names_def by (rule sorted_wrt_filter)
  then have s: "sorted_wrt
     (\<lambda>a b.
        (isTypeRightAlignable (Get (Fields e) a) \<and> \<not> isTypeRightAlignable (Get (Fields e) b))
        \<or> (isTypeRightAlignable (Get (Fields e) a) = isTypeRightAlignable (Get (Fields e) b)
            \<and> strings_Compare a b = - 1))
     (rendered_names e)"
    by (simp add: names_lt_iff [abs_def])
  have m: "set (rendered_names e) = fst ` set (Fields e) - {''source''}"
    by (auto simp: rendered_names_def set_sortNames set_Names)
  have d: "distinct (rendered_names e)"
    by (simp add: rendered_names_def distinct_sortNames distinct_Names)
  from s m d show ?thesis by simp
qed

section \<open>Properties of the field statistics\<close>

lemma quo_2_nonneg: "0 \<le> c \<Longrightarrow> quo c 2 = c div 2"
  by (cases "c = 0") (simp_all add: quo_def)

lemma MaxLength_observe:
  "MaxLength (observe k sw r) =
     (if sw + 20 < max (MaxLength k) sw then sw else max (MaxLength k) sw)"
  by (auto simp: observe_def Let_def max_def)

lemma Count_observe: "Count (observe k sw r) = Count k + 1"
  by (simp add: observe_def Let_def)

lemma RightAlignable_observe:
  "RightAlignable (observe k sw r) = RightAlignable k + (if r then 1 else 0)"
  by (simp add: observe_def Let_def)

lemma observe_all_snoc: "observe_all k (obs @ [(sw, r)]) = observe (observe_all k obs) sw r"
  by (simp add: observe_all_def)

lemma Count_observe_all: "Count (observe_all k obs) = Count k + int (length obs)"
  by (induction obs rule: rev_induct) (auto simp: observe_all_snoc Count_observe observe_all_def)

lemma RightAlignable_observe_all:
  "RightAlignable (observe_all k obs) = RightAlignable k + int (length (filter snd obs))"
  by (induction obs rule: rev_induct)
    (auto simp: observe_all_snoc RightAlignable_observe observe_all_def)

lemma alignRight_observe_all:
  "alignRight (observe_all keyStat_zero obs)
     \<longleftrightarrow> int (length (filter snd obs)) > int (length obs) div 2"
  by (simp add: alignRight_def Count_observe_all RightAlignable_observe_all quo_2_nonneg
      keyStat_zero_def)

lemma alignRight_majority:
  "alignRight (observe_all keyStat_zero obs) \<longleftrightarrow> 2 * length (filter snd obs) > length obs"
  unfolding alignRight_observe_all by linarith

lemma alignRight_examples:
  "alignRight \<lparr>MaxLength = m, Count = 5, RightAlignable = 3\<rparr>"
  "\<not> alignRight \<lparr>MaxLength = m, Count = 5, RightAlignable = 2\<rparr>"
  "\<not> alignRight \<lparr>MaxLength = m, Count = 6, RightAlignable = 3\<rparr>"
  by (simp_all add: alignRight_def quo_def)

lemma MaxLength_observe_all_examples:
  "MaxLength (observe_all keyStat_zero [(3, r1), (3, r2), (3, r3), (30, r4)]) = 30"
  "MaxLength (observe_all keyStat_zero [(30, r1), (5, r2)]) = 5"
  by (simp_all add: MaxLength_observe observe_all_def keyStat_zero_def)

section \<open>Properties of \<open>writeNameValue\<close>\<close>

lemma lengths_at_upd:
  "lengths_at (m(name \<mapsto> k)) n = (if n = name then k else lengths_at m n)"
  by (simp add: lengths_at_def)

text \<open>One call stores \<open>field_stat\<close> for the name and appends \<open>field_text\<close>; it returns no error.\<close>

lemma writeNameValue_eq:
  "writeNameValue x h e name i names =
     (None,
      h\<lparr>lengths := (lengths h)(name \<mapsto> field_stat x (lengths h) e name),
        buf := buf h @ field_text x (field_stat x (lengths h) e name) e name i names\<rparr>)"
  by (simp add: writeNameValue_def Let_def field_stat_def field_sw_def field_text_def
      right_text_def left_text_def Fprintf_buf_def)

lemma lengths_writeNameValue:
  "lengths_at (lengths (snd (writeNameValue x h e name i names))) name =
     observe (lengths_at (lengths h) name) (field_sw x e name)
       (isTypeRightAlignable (field_val x e name))"
  by (simp add: writeNameValue_eq lengths_at_upd field_stat_def)

lemma buf_writeNameValue:
  "buf (snd (writeNameValue x h e name i names)) =
     buf h @ field_text x (lengths_at (lengths (snd (writeNameValue x h e name i names))) name)
               e name i names"
  by (simp add: writeNameValue_eq lengths_at_upd)

lemma lengths_writeNameValue_other:
  "n \<noteq> name \<Longrightarrow>
   lengths_at (lengths (snd (writeNameValue x h e n i names))) name = lengths_at (lengths h) name"
  by (simp add: writeNameValue_eq lengths_at_upd)

lemma writeNameValue_all_snoc:
  "writeNameValue_all x h (cs @ [c]) =
     snd (writeNameValue x (writeNameValue_all x h cs) (call_entry c) (call_name c)
            (call_index c) (call_names c))"
  by (simp add: writeNameValue_all_def)

lemma observations_snoc:
  "observations x name (cs @ [c]) =
     observations x name cs
     @ (if call_name c = name
        then [(field_sw x (call_entry c) name,
               isTypeRightAlignable (field_val x (call_entry c) name))]
        else [])"
  by (simp add: observations_def)

text \<open>
  After any sequence of calls, the statistics of a name are those of its observations: the
  calls for other names do not touch them.
\<close>

lemma lengths_writeNameValue_all:
  "lengths_at (lengths (writeNameValue_all x h cs)) name =
     observe_all (lengths_at (lengths h) name) (observations x name cs)"
proof (induction cs rule: rev_induct)
  case Nil
  show ?case by (simp add: writeNameValue_all_def observations_def observe_all_def)
next
  case (snoc c cs)
  show ?case
  proof (cases "call_name c = name")
    case True
    then show ?thesis
      unfolding writeNameValue_all_snoc observations_snoc
      by (simp add: lengths_writeNameValue snoc.IH observe_all_snoc)
  next
    case False
    then show ?thesis
      unfolding writeNameValue_all_snoc observations_snoc
      by (simp add: lengths_writeNameValue_other snoc.IH)
  qed
qed

lemma lengths_at_New: "lengths_at (lengths (New w)) name = keyStat_zero"
  by (simp add: New_def lengths_at_def)

lemma length_observations:
  "length (observations x name cs) = length (filter (\<lambda>c. call_name c = name) cs)"
  by (simp add: observations_def)

lemma votes_observations:
  "length (filter snd (observations x name cs)) =
     length (filter (\<lambda>c. isTypeRightAlignable (field_val x (call_entry c) name))
               (filter (\<lambda>c. call_name c = name) cs))"
  by (simp add: observations_def filter_map comp_def)

text \<open>
  Claim C3.  Let \<open>cs\<close> be any sequence of earlier calls of \<^verbatim>\<open>writeNameValue\<close> on a new
  handler, for any names, followed by one more call for the field \<open>name\<close>.  After it,
  \<open>Count\<close> is the number of all calls for \<open>name\<close> and \<open>RightAlignable\<close> the number of those
  whose value the classifier found right-alignable, and the call renders the field
  right-aligned exactly when \<open>RightAlignable\<close> exceeds \<open>Count / 2\<close> (Go's integer division),
  that is, when the right-alignable observations are a strict majority of all observations of
  the name to date.  Three votes out of five samples give RIGHT, two out of five LEFT and three
  out of six LEFT.
\<close>

theorem alignment_strict_majority:
  "(let h0 = writeNameValue_all x (New w) cs;
        h1 = snd (writeNameValue x h0 e name i names);
        k = lengths_at (lengths h1) name;
        earlier = filter (\<lambda>c. call_name c = name) cs;
        samples = length earlier + 1;
        votes = length (filter (\<lambda>c. isTypeRightAlignable (field_val x (call_entry c) name))
                          earlier)
                + (if isTypeRightAlignable (field_val x e name) then 1 else 0);
        val = field_val x e name;
        pad = (if field_sw x e name < MaxLength k \<and> i + 1 \<noteq> length names
               then nat (MaxLength k - field_sw x e name) else 0)
    in Count k = int samples
       \<and> RightAlignable k = int votes
       \<and> buf h1 = buf h0 @ (if RightAlignable k > quo (Count k) 2
                            then right_text x name (MaxLength k) val
                            else left_text x name val pad)
       \<and> (RightAlignable k > quo (Count k) 2 \<longleftrightarrow> 2 * votes > samples))
   \<and> alignRight \<lparr>MaxLength = m, Count = 5, RightAlignable = 3\<rparr>
   \<and> \<not> alignRight \<lparr>MaxLength = m, Count = 5, RightAlignable = 2\<rparr>
   \<and> \<not> alignRight \<lparr>MaxLength = m, Count = 6, RightAlignable = 3\<rparr>"
proof -
  define c where "c = \<lparr>call_name = name, call_entry = e, call_index = i, call_names = names\<rparr>"
  define h0 where "h0 = writeNameValue_all x (New w) cs"
  define h1 where "h1 = snd (writeNameValue x h0 e name i names)"
  define k where "k = lengths_at (lengths h1) name"
  define earlier where "earlier = filter (\<lambda>c. call_name c = name) cs"
  define votes where "votes =
    length (filter (\<lambda>c. isTypeRightAlignable (field_val x (call_entry c) name)) earlier)
    + (if isTypeRightAlignable (field_val x e name) then 1 else 0)"
  define obs where "obs = observations x name (cs @ [c])"
  have h1: "h1 = writeNameValue_all x (New w) (cs @ [c])"
    by (simp add: h1_def h0_def writeNameValue_all_snoc c_def)
  have k: "k = observe_all keyStat_zero obs"
    unfolding k_def h1 lengths_writeNameValue_all lengths_at_New obs_def ..
  have v: "length (filter snd obs) = votes"
    unfolding obs_def votes_observations votes_def earlier_def by (simp add: c_def)
  have l: "length obs = length earlier + 1"
    unfolding obs_def length_observations earlier_def by (simp add: c_def)
  have cnt: "Count k = int (length earlier + 1)"
    unfolding k Count_observe_all l by (simp add: keyStat_zero_def)
  have r: "RightAlignable k = int votes"
    unfolding k RightAlignable_observe_all v by (simp add: keyStat_zero_def)
  have a: "alignRight k \<longleftrightarrow> 2 * votes > length earlier + 1"
    unfolding k alignRight_majority v l ..
  have b: "buf h1 = buf h0 @ field_text x k e name i names"
    unfolding h1_def k_def by (rule buf_writeNameValue)
  have "Count k = int (length earlier + 1)
       \<and> RightAlignable k = int votes
       \<and> buf h1 = buf h0 @ (if RightAlignable k > quo (Count k) 2
                            then right_text x name (MaxLength k) (field_val x e name)
                            else left_text x name (field_val x e name)
                              (if field_sw x e name < MaxLength k \<and> i + 1 \<noteq> length names
                               then nat (MaxLength k - field_sw x e name) else 0))
       \<and> (RightAlignable k > quo (Count k) 2 \<longleftrightarrow> 2 * votes > length earlier + 1)"
    using cnt r a b by (simp add: field_text_def alignRight_def)
  then show ?thesis
    unfolding Let_def h0_def [symmetric] h1_def [symmetric] k_def [symmetric]
      earlier_def [symmetric] votes_def [symmetric]
    using alignRight_examples [of m] by blast
qed

text \<open>
  Claim C4.  Each call of \<^verbatim>\<open>writeNameValue\<close> first sets \<open>MaxLength\<close> of the name to the
  maximum of its old value and the display width \<open>sw\<close> of the value and then, if
  \<open>sw + 20\<close> is below that maximum, resets it to \<open>sw\<close>.  Calls with the widths 3, 3, 3, 30
  for one field of a new handler leave \<open>MaxLength = 30\<close>; the widths 30, 5 trigger the decay
  and leave \<open>MaxLength = 5\<close>.
\<close>

theorem MaxLength_max_then_decay:
  "(let sw = field_sw x e name;
        old = MaxLength (lengths_at (lengths h) name);
        new = MaxLength (lengths_at (lengths (snd (writeNameValue x h e name i names))) name);
        m = max old sw
    in new = (if sw + 20 < m then sw else m))
   \<and> (map fst (observations x name cs) = [3, 3, 3, 30] \<longrightarrow>
        MaxLength (lengths_at (lengths (writeNameValue_all x (New w) cs)) name) = 30)
   \<and> (map fst (observations x name cs) = [30, 5] \<longrightarrow>
        MaxLength (lengths_at (lengths (writeNameValue_all x (New w) cs)) name) = 5)"
proof -
  have step: "MaxLength (lengths_at (lengths (snd (writeNameValue x h e name i names))) name) =
      (if field_sw x e name + 20 < max (MaxLength (lengths_at (lengths h) name)) (field_sw x e name)
       then field_sw x e name
       else max (MaxLength (lengths_at (lengths h) name)) (field_sw x e name))"
    unfolding lengths_writeNameValue by (rule MaxLength_observe)
  have all: "lengths_at (lengths (writeNameValue_all x (New w) cs)) name =
      observe_all keyStat_zero (observations x name cs)"
    unfolding lengths_writeNameValue_all lengths_at_New ..
  have a: "MaxLength (observe_all keyStat_zero obs) = 30"
    if "map fst obs = [3, 3, 3, 30]" for obs :: "(int \<times> bool) list"
  proof -
    from that obtain r1 r2 r3 r4 where "obs = [(3, r1), (3, r2), (3, r3), (30, r4)]"
      by (auto simp: map_eq_Cons_conv)
    then show ?thesis
      by (simp add: MaxLength_observe_all_examples)
  qed
  have b: "MaxLength (observe_all keyStat_zero obs) = 5"
    if "map fst obs = [30, 5]" for obs :: "(int \<times> bool) list"
  proof -
    from that obtain r1 r2 where "obs = [(30, r1), (5, r2)]"
      by (auto simp: map_eq_Cons_conv)
    then show ?thesis
      by (simp add: MaxLength_observe_all_examples)
  qed
  from step a [of "observations x name cs"] b [of "observations x name cs"]
  show ?thesis
    unfolding all Let_def by simp
qed

lemma field_sw_example_call:
  "call_name (example_call name s) = name"
  "field_sw (example_ext wr) (call_entry (example_call name s)) name = int (length s)"
  by (simp_all add: example_call_def field_sw_def field_val_def Get_def example_ext_def
      example_v_def)

theorem MaxLength_max_then_decay_witness:
  "map fst (observations (example_ext accepting) ''path''
      [example_call ''path'' ''abc'', example_call ''user'' ''root'',
       example_call ''path'' ''def'', example_call ''path'' ''ghi'',
       example_call ''path'' ''/usr/local/share/doc/README.md''])
   = [3, 3, 3, 30]
   \<and> MaxLength (lengths_at (lengths (writeNameValue_all (example_ext accepting) example_handler
      [example_call ''path'' ''abc'', example_call ''user'' ''root'',
       example_call ''path'' ''def'', example_call ''path'' ''ghi'',
       example_call ''path'' ''/usr/local/share/doc/README.md''])) ''path'') = 30"
proof -
  let ?cs = "[example_call ''path'' ''abc'', example_call ''user'' ''root'',
       example_call ''path'' ''def'', example_call ''path'' ''ghi'',
       example_call ''path'' ''/usr/local/share/doc/README.md'']"
  have o: "map fst (observations (example_ext accepting) ''path'' ?cs) = [3, 3, 3, 30]"
    by (simp add: observations_def field_sw_example_call)
  from MaxLength_max_then_decay [of "example_ext accepting" _ "''path''" _ _ _ ?cs "[]"] o
  show ?thesis
    by (simp only: example_handler_def simp_thms)
qed

text \<open>
  Claim C10.  After every call of \<^verbatim>\<open>writeNameValue\<close> the \<open>MaxLength\<close> stored for the name is
  at least the display width of the value just observed, and it is the column width of the
  text that the call appends: the width given to \<^verbatim>\<open>%*v\<close> when the field is right-aligned, the
  width up to which spaces follow the value when it is left-aligned and not the last name.
  So no value is padded to a column narrower than itself.
\<close>

theorem column_width_covers_value:
  "(let h1 = snd (writeNameValue x h e name i names);
        k = lengths_at (lengths h1) name;
        sw = field_sw x e name;
        val = field_val x e name
    in sw \<le> MaxLength k
       \<and> buf h1 = buf h @ (if alignRight k then right_text x name (MaxLength k) val
                           else left_text x name val
                                  (if sw < MaxLength k \<and> i + 1 \<noteq> length names
                                   then nat (MaxLength k - sw) else 0)))"
proof -
  have "field_sw x e name
          \<le> MaxLength (lengths_at (lengths (snd (writeNameValue x h e name i names))) name)"
    unfolding lengths_writeNameValue MaxLength_observe by simp
  then show ?thesis
    unfolding Let_def
    by (simp add: buf_writeNameValue [of x h e name i names] field_text_def)
qed

section \<open>Properties of \<open>HandleLog\<close>\<close>

lemma field_stat_cong: "m' n = m n \<Longrightarrow> field_stat x m' e n = field_stat x m e n"
  by (simp add: field_stat_def lengths_at_def)

lemma fields_text_Nil: "fields_text x m e names i [] = []"
  by (simp add: fields_text_def)

lemma fields_text_Cons:
  "fields_text x m e names i (name # rest) =
     (if name = ''source'' then [] else field_text x (field_stat x m e name) e name i names)
     @ fields_text x m e names (Suc i) rest"
  by (simp add: fields_text_def)

lemma fields_text_cong:
  "(\<And>n. n \<in> set rest \<Longrightarrow> m' n = m n) \<Longrightarrow>
   fields_text x m' e names i rest = fields_text x m e names i rest"
proof (induction rest arbitrary: i)
  case Nil
  show ?case by (simp add: fields_text_Nil)
next
  case (Cons n rest)
  have "field_stat x m' e n = field_stat x m e n"
    by (rule field_stat_cong) (simp add: Cons.prems)
  moreover have "fields_text x m' e names (Suc i) rest = fields_text x m e names (Suc i) rest"
    by (rule Cons.IH) (simp add: Cons.prems)
  ultimately show ?case
    by (simp add: fields_text_Cons)
qed

lemma fields_text_upd:
  assumes "name \<notin> set rest"
  shows "fields_text x (m(name \<mapsto> k)) e names i rest = fields_text x m e names i rest"
proof (rule fields_text_cong)
  fix n
  assume "n \<in> set rest"
  with assms have "n \<noteq> name" by auto
  then show "(m(name \<mapsto> k)) n = m n" by simp
qed

lemma fields_lengths_Nil: "fields_lengths x m e [] = m"
  by (simp add: fields_lengths_def)

lemma fields_lengths_source:
  "fields_lengths x m e (''source'' # rest) = fields_lengths x m e rest"
  by (auto simp: fields_lengths_def fun_eq_iff)

lemma fields_lengths_Cons:
  assumes "name \<noteq> ''source''" and "name \<notin> set rest"
  shows "fields_lengths x (m(name \<mapsto> field_stat x m e name)) e rest =
         fields_lengths x m e (name # rest)"
proof
  fix n
  show "fields_lengths x (m(name \<mapsto> field_stat x m e name)) e rest n =
        fields_lengths x m e (name # rest) n"
  proof (cases "n = name")
    case True
    with assms show ?thesis by (simp add: fields_lengths_def)
  next
    case False
    then have "field_stat x (m(name \<mapsto> field_stat x m e name)) e n = field_stat x m e n"
      by (intro field_stat_cong) simp
    with False show ?thesis by (simp add: fields_lengths_def)
  qed
qed

text \<open>
  The loop over distinct names returns no error, stores the statistics of every name but
  \<^verbatim>\<open>source\<close> and appends the texts of these names in their order.
\<close>

lemma fields_loop_eq:
  "distinct rest \<Longrightarrow>
   fields_loop x e names i rest h =
     (None,
      h\<lparr>lengths := fields_lengths x (lengths h) e rest,
        buf := buf h @ fields_text x (lengths h) e names i rest\<rparr>)"
proof (induction rest arbitrary: i h)
  case Nil
  show ?case by (simp add: fields_lengths_Nil fields_text_Nil)
next
  case (Cons name rest)
  then have d: "name \<notin> set rest" "distinct rest" by simp_all
  show ?case
  proof (cases "name = ''source''")
    case True
    with Cons.IH [OF d(2)] show ?thesis
      by (simp add: fields_lengths_source fields_text_Cons)
  next
    case False
    define h1 where "h1 = snd (writeNameValue x h e name i names)"
    have w: "writeNameValue x h e name i names = (None, h1)"
      by (simp add: h1_def writeNameValue_eq)
    have l1: "lengths h1 = (lengths h)(name \<mapsto> field_stat x (lengths h) e name)"
      and b1: "buf h1 = buf h @ field_text x (field_stat x (lengths h) e name) e name i names"
      by (simp_all add: h1_def writeNameValue_eq)
    have "fields_loop x e names i (name # rest) h = fields_loop x e names (i + 1) rest h1"
      using False by (simp add: w)
    also have "\<dots> =
        (None,
         h1\<lparr>lengths := fields_lengths x (lengths h1) e rest,
            buf := buf h1 @ fields_text x (lengths h1) e names (i + 1) rest\<rparr>)"
      by (rule Cons.IH [OF d(2)])
    also have "fields_lengths x (lengths h1) e rest = fields_lengths x (lengths h) e (name # rest)"
      unfolding l1 using False d(1) by (rule fields_lengths_Cons)
    also have "fields_text x (lengths h1) e names (i + 1) rest =
        fields_text x (lengths h) e names (Suc i) rest"
      unfolding l1 using d(1) by (simp add: fields_text_upd)
    also have "h1\<lparr>lengths := fields_lengths x (lengths h) e (name # rest),
         buf := buf h1 @ fields_text x (lengths h) e names (Suc i) rest\<rparr> =
       h\<lparr>lengths := fields_lengths x (lengths h) e (name # rest),
         buf := buf h @ fields_text x (lengths h) e names i (name # rest)\<rparr>"
      using False by (simp add: h1_def writeNameValue_eq fields_text_Cons)
    finally show ?thesis .
  qed
qed

text \<open>
  The loop is a sequence of calls of \<^verbatim>\<open>writeNameValue\<close>, one for each name but \<^verbatim>\<open>source\<close>:
  what is shown above for sequences of calls holds for the calls that \<^verbatim>\<open>HandleLog\<close> makes.
\<close>

lemma fields_loop_calls:
  "fields_loop x e names i rest h =
     (None, writeNameValue_all x h (loop_calls e names i rest))"
proof (induction rest arbitrary: i h)
  case Nil
  show ?case by (simp add: loop_calls_def writeNameValue_all_def)
next
  case (Cons name rest)
  show ?case
  proof (cases "name = ''source''")
    case True
    with Cons.IH [of "Suc i" h] show ?thesis
      by (simp add: loop_calls_def)
  next
    case False
    have w: "writeNameValue x h e name i names = (None, snd (writeNameValue x h e name i names))"
      by (simp add: writeNameValue_eq)
    have "fields_loop x e names i (name # rest) h =
            fields_loop x e names (Suc i) rest (snd (writeNameValue x h e name i names))"
      using False by (subst fields_loop.simps, subst w) simp
    also have "\<dots> = (None, writeNameValue_all x (snd (writeNameValue x h e name i names))
                          (loop_calls e names (Suc i) rest))"
      by (rule Cons.IH)
    also have "writeNameValue_all x (snd (writeNameValue x h e name i names))
                 (loop_calls e names (Suc i) rest) =
               writeNameValue_all x h (loop_calls e names i (name # rest))"
      using False by (simp add: loop_calls_def writeNameValue_all_def)
    finally show ?thesis .
  qed
qed

lemma index_in_range:
  "0 \<le> i \<Longrightarrow> i < int (length xs) \<Longrightarrow> index xs i = Inr (xs ! nat i)"
  by (simp add: index_def)

lemma distinct_sorted_Names: "distinct (sortNames e (Names (Fields e)))"
  by (simp add: distinct_sortNames distinct_Names)

text \<open>For one of the five levels the line is assembled without error.\<close>

lemma render_eq:
  assumes "0 \<le> Level e" and "Level e < 5"
  shows "render x h e =
     Inr (None,
          h\<lparr>lengths := fields_lengths x (lengths h) e (sortNames e (Names (Fields e))),
            buf := line_text x h e\<rparr>)"
proof -
  have c: "index LevelColors (Level e) = Inr (LevelColors ! nat (Level e))"
    using assms by (intro index_in_range) (simp_all add: LevelColors_def)
  have s: "index LevelSymbol (Level e) = Inr (LevelSymbol ! nat (Level e))"
    using assms by (intro index_in_range) (simp_all add: LevelSymbol_def)
  show ?thesis
    unfolding render_def c s
    by (simp add: Let_def Fprintf_buf_def fields_loop_eq [OF distinct_sorted_Names]
        line_text_def)
qed

lemma line_text_not_Nil: "line_text x h e \<noteq> []"
  by (simp add: line_text_def)

lemma rendered_names_enumerate:
  "map snd (filter (\<lambda>p. snd p \<noteq> ''source'') (enumerate i names)) =
     filter (\<lambda>name. name \<noteq> ''source'') names"
  by (induction names arbitrary: i) simp_all

lemma render_invalid_level:
  assumes "\<not> (0 \<le> Level e \<and> Level e < 5)"
  shows "render x h e = Inl IndexOutOfRange" and "HandleLog x h e = Inl IndexOutOfRange"
proof -
  from assms have "index LevelColors (Level e) = Inl IndexOutOfRange"
    by (auto simp: index_def LevelColors_def)
  then show "render x h e = Inl IndexOutOfRange"
    by (simp add: render_def)
  then show "HandleLog x h e = Inl IndexOutOfRange"
    by (simp add: HandleLog_def)
qed

text \<open>
  Claim C7.  For every record, no text is written for a field named \<^verbatim>\<open>source\<close>, whatever its
  value.  If the level of the record is one of the five levels, the line that \<^verbatim>\<open>HandleLog\<close>
  assembles and hands to the writer is the colored time and level, the message, the texts of
  the names other than \<^verbatim>\<open>source\<close> in their sorted order, and a line feed, and the statistics
  kept for the name \<^verbatim>\<open>source\<close> do not change.  For any other level, indexing the table of
  colors panics and nothing is written.
\<close>

theorem source_never_rendered:
  "(if 0 \<le> Level e \<and> Level e < 5 then
      (let names = sortNames e (Names (Fields e));
           shown = filter (\<lambda>p. snd p \<noteq> ''source'') (enumerate 0 names);
           head = color_Fprintf x (LevelColors ! nat (Level e))
                    (Format x (Timestamp h) (Entry_Timestamp e) @ '' ''
                     @ LevelSymbol ! nat (Level e))
                  @ (if Message e \<noteq> [] then '' '' @ Message e else [])
       in \<exists>h1. render x h e = Inr (None, h1)
             \<and> HandleLog x h e = WriteTo x h1
             \<and> buf h1 =
                 head
                 @ concat (map (\<lambda>p. field_text x (field_stat x (lengths h) e (snd p)) e
                                       (snd p) (fst p) names) shown)
                 @ [CHR 0x0A]
             \<and> map snd shown = rendered_names e
             \<and> ''source'' \<notin> set (rendered_names e)
             \<and> lengths h1 ''source'' = lengths h ''source'')
    else render x h e = Inl IndexOutOfRange \<and> HandleLog x h e = Inl IndexOutOfRange)"
proof (cases "0 \<le> Level e \<and> Level e < 5")
  case False
  then show ?thesis
    using render_invalid_level [of e x h] by simp
next
  case True
  then have level: "0 \<le> Level e" "Level e < 5" by simp_all
  define names where "names = sortNames e (Names (Fields e))"
  define h1 where "h1 = h\<lparr>lengths := fields_lengths x (lengths h) e names,
                           buf := line_text x h e\<rparr>"
  have r: "render x h e = Inr (None, h1)"
    unfolding h1_def names_def using level by (rule render_eq)
  then have w: "HandleLog x h e = WriteTo x h1"
    by (simp add: HandleLog_def)
  have b: "buf h1 =
      (color_Fprintf x (LevelColors ! nat (Level e))
         (Format x (Timestamp h) (Entry_Timestamp e) @ '' '' @ LevelSymbol ! nat (Level e))
       @ (if Message e \<noteq> [] then '' '' @ Message e else []))
      @ concat (map (\<lambda>p. field_text x (field_stat x (lengths h) e (snd p)) e
                            (snd p) (fst p) names)
                  (filter (\<lambda>p. snd p \<noteq> ''source'') (enumerate 0 names)))
      @ [CHR 0x0A]"
    by (simp add: h1_def line_text_def fields_text_def names_def)
  have n: "map snd (filter (\<lambda>p. snd p \<noteq> ''source'') (enumerate 0 names)) = rendered_names e"
    unfolding rendered_names_enumerate by (simp add: rendered_names_def names_def)
  have s: "''source'' \<notin> set (rendered_names e)"
    by (simp add: rendered_names_def)
  have l: "lengths h1 ''source'' = lengths h ''source''"
    by (simp add: h1_def fields_lengths_def)
  from r w b n s l have "\<exists>h1. render x h e = Inr (None, h1)
             \<and> HandleLog x h e = WriteTo x h1
             \<and> buf h1 =
                 (color_Fprintf x (LevelColors ! nat (Level e))
                    (Format x (Timestamp h) (Entry_Timestamp e) @ '' ''
                     @ LevelSymbol ! nat (Level e))
                  @ (if Message e \<noteq> [] then '' '' @ Message e else []))
                 @ concat (map (\<lambda>p. field_text x (field_stat x (lengths h) e (snd p)) e
                                       (snd p) (fst p) names)
                             (filter (\<lambda>p. snd p \<noteq> ''source'') (enumerate 0 names)))
                 @ [CHR 0x0A]
             \<and> map snd (filter (\<lambda>p. snd p \<noteq> ''source'') (enumerate 0 names))
                 = rendered_names e
             \<and> ''source'' \<notin> set (rendered_names e)
             \<and> lengths h1 ''source'' = lengths h ''source''"
    by (intro exI [of _ h1] conjI)
  with True show ?thesis
    unfolding Let_def names_def by simp
qed

text \<open>The result of \<^verbatim>\<open>HandleLog\<close> is that of the one write of the line.\<close>

lemma HandleLog_eq:
  assumes "0 \<le> Level e" and "Level e < 5"
    and "Write x (Writer h) (line_text x h e) = ((m, werr), w')"
    and "m \<le> length (line_text x h e)"
  shows "HandleLog x h e =
     Inr (if werr \<noteq> None then werr
          else if m < length (line_text x h e) then Some ErrShortWrite else None,
          h\<lparr>Writer := w',
            lengths := fields_lengths x (lengths h) e (sortNames e (Names (Fields e))),
            buf := (if werr = None \<and> m = length (line_text x h e) then []
                    else drop m (line_text x h e))\<rparr>)"
proof -
  have "line_text x h e \<noteq> []" by (rule line_text_not_Nil)
  then have "0 < length (line_text x h e)" by simp
  with assms(3,4) show ?thesis
    unfolding HandleLog_def render_eq [OF assms(1,2)]
    by (cases werr) (auto simp: WriteTo_def Let_def)
qed

text \<open>The earlier version returns \<^verbatim>\<open>nil\<close> whenever it returns.\<close>

lemma HandleLog0_nil: "HandleLog0 x h e = Inr (r, h1) \<Longrightarrow> r = None"
  by (auto simp: HandleLog0_def Let_def split: sum.splits prod.splits)

text \<open>
  Claim C8, as amended.  In the current version of the handler, for every record with one of
  the five levels, \<^verbatim>\<open>HandleLog\<close> makes one write of the line.  If the writer reports, as
  \<^verbatim>\<open>io.Writer\<close> requires, no more bytes than it was given, \<^verbatim>\<open>HandleLog\<close> returns a failure
  exactly when that write fails: the error of the writer, or \<^verbatim>\<open>io.ErrShortWrite\<close> for a
  short count without error; it returns \<^verbatim>\<open>nil\<close> when the writer accepts the line.  The writer
  is left in its state after that one write: there is no retry.  (A writer that reports more
  bytes than it was given makes \<^verbatim>\<open>bytes.Buffer.WriteTo\<close> panic.)  The earlier version of the
  handler returns \<^verbatim>\<open>nil\<close> whenever it returns: it drops the result of the write.
\<close>

theorem HandleLog_fails_iff_write_fails:
  assumes "0 \<le> Level e" and "Level e < 5"
    and "Write x (Writer h) (line_text x h e) = ((m, werr), w')"
  shows "(m \<le> length (line_text x h e) \<longrightarrow>
           (\<exists>h1. HandleLog x h e =
                   Inr (if werr \<noteq> None then werr
                        else if m < length (line_text x h e) then Some ErrShortWrite
                        else None, h1)
                 \<and> Writer h1 = w'))
         \<and> (m > length (line_text x h e) \<longrightarrow> HandleLog x h e = Inl InvalidWriteCount)
         \<and> (\<forall>r h1. HandleLog0 x h0 e = Inr (r, h1) \<longrightarrow> r = None)"
proof -
  have "\<exists>h1. HandleLog x h e =
               Inr (if werr \<noteq> None then werr
                    else if m < length (line_text x h e) then Some ErrShortWrite else None, h1)
             \<and> Writer h1 = w'"
    if "m \<le> length (line_text x h e)"
    unfolding HandleLog_eq [OF assms that] by simp
  moreover have "HandleLog x h e = Inl InvalidWriteCount"
    if "m > length (line_text x h e)"
    using that assms(3) line_text_not_Nil [of x h e]
    unfolding HandleLog_def render_eq [OF assms(1,2)]
    by (simp add: WriteTo_def Let_def)
  moreover have "\<forall>r h1. HandleLog0 x h0 e = Inr (r, h1) \<longrightarrow> r = None"
    using HandleLog0_nil by blast
  ultimately show ?thesis by blast
qed

section \<open>A concrete run\<close>

lemma example_right:
  "isTypeRightAlignable (IntV 42)"
  "\<not> isTypeRightAlignable (StringV ''worker-1'')"
  "\<not> isTypeRightAlignable (StringV ''main.go'')"
  by (simp_all add: reNumType_eval)

lemma example_Get:
  "Get (Fields example_entry) ''count'' = IntV 42"
  "Get (Fields example_entry) ''name'' = StringV ''worker-1''"
  "Get (Fields example_entry) ''source'' = StringV ''main.go''"
  by (simp_all add: example_entry_def Get_def)

lemma example_Names: "Names (Fields example_entry) = [''count'', ''name'', ''source'']"
  by (simp add: example_entry_def Names_def sort_Slice_def)

lemma example_names_lt:
  "names_lt example_entry ''count'' ''name''" "names_lt example_entry ''count'' ''source''"
  "names_lt example_entry ''name'' ''source''"
  "\<not> names_lt example_entry ''name'' ''count''" "\<not> names_lt example_entry ''source'' ''count''"
  "\<not> names_lt example_entry ''source'' ''name''"
  by (simp_all add: names_lt_def example_Get example_right)

lemma example_sortNames:
  "sortNames example_entry (Names (Fields example_entry)) = [''count'', ''name'', ''source'']"
  by (simp add: example_Names sortNames_def sort_Slice_def example_names_lt)

lemma example_Sprintf_d: "Sprintf_d 42 = ''42''"
  by (simp add: Sprintf_d_def FormatUint.simps digit_char_def)

lemma example_line_text:
  "line_text (example_ext wr) example_handler example_entry =
     '' I starting count=42 name=worker-1'' @ [CHR 0x0A]"
  unfolding line_text_def example_sortNames
  by (simp add: fields_text_def field_text_def field_stat_def field_sw_def field_val_def
      example_Get example_right observe_def alignRight_def quo_def lengths_at_def New_def example_handler_def
      keyStat_zero_def right_text_def left_text_def example_ext_def example_v_def
      example_Sprintf_d enumerate_eq_zip upt_rec
      example_entry_def [THEN arg_cong [where f = Level]]
      example_entry_def [THEN arg_cong [where f = Message]] InfoLevel_def LevelSymbol_def)

lemma example_Level: "0 \<le> Level example_entry" "Level example_entry < 5"
  by (simp_all add: example_entry_def InfoLevel_def)

theorem source_never_rendered_witness:
  "0 \<le> Level example_entry \<and> Level example_entry < 5
   \<and> Get (Fields example_entry) ''source'' = StringV ''main.go''
   \<and> (\<exists>h1. render (example_ext accepting) example_handler example_entry = Inr (None, h1)
          \<and> buf h1 = '' I starting count=42 name=worker-1'' @ [CHR 0x0A]
          \<and> rendered_names example_entry = [''count'', ''name'']
          \<and> lengths h1 ''source'' = None)"
proof -
  have n: "rendered_names example_entry = [''count'', ''name'']"
    by (simp add: rendered_names_def example_sortNames)
  have "\<exists>h1. render (example_ext accepting) example_handler example_entry = Inr (None, h1)
          \<and> lengths h1 ''source'' = lengths example_handler ''source''"
    using source_never_rendered [of example_entry "example_ext accepting" example_handler]
      example_Level
    unfolding Let_def by (simp only: simp_thms if_True) (elim exE conjE, intro exI conjI, assumption+)
  then obtain h1
    where r: "render (example_ext accepting) example_handler example_entry = Inr (None, h1)"
      and l: "lengths h1 ''source'' = lengths example_handler ''source''"
    by (elim exE conjE)
  from r have "h1 = example_handler\<lparr>lengths :=
        fields_lengths (example_ext accepting) (lengths example_handler) example_entry
          (sortNames example_entry (Names (Fields example_entry))),
      buf := line_text (example_ext accepting) example_handler example_entry\<rparr>"
    unfolding render_eq [OF example_Level] by simp
  then have "buf h1 = line_text (example_ext accepting) example_handler example_entry"
    by simp
  then have b: "buf h1 = '' I starting count=42 name=worker-1'' @ [CHR 0x0A]"
    by (simp only: example_line_text)
  from l have "lengths h1 ''source'' = None"
    by (simp add: New_def example_handler_def)
  with r b n have "\<exists>h1. render (example_ext accepting) example_handler example_entry = Inr (None, h1)
          \<and> buf h1 = '' I starting count=42 name=worker-1'' @ [CHR 0x0A]
          \<and> rendered_names example_entry = [''count'', ''name'']
          \<and> lengths h1 ''source'' = None"
    by (intro exI [of _ h1] conjI)
  with example_Level example_Get(3) show ?thesis
    by (intro conjI)
qed

theorem HandleLog_fails_iff_write_fails_witness:
  "0 \<le> Level example_entry \<and> Level example_entry < 5
   \<and> (\<exists>h1. HandleLog (example_ext accepting) example_handler example_entry = Inr (None, h1)
          \<and> Writer h1 = ['' I starting count=42 name=worker-1'' @ [CHR 0x0A]])
   \<and> (\<exists>h1. HandleLog (example_ext failing) example_handler example_entry
               = Inr (Some (WriteError ''closed''), h1)
          \<and> Writer h1 = ['' I starting count=42 name=worker-1'' @ [CHR 0x0A]])"
proof -
  let ?line = "'' I starting count=42 name=worker-1'' @ [CHR 0x0A]"
  have a: "Write (example_ext accepting) (Writer example_handler)
             (line_text (example_ext accepting) example_handler example_entry)
           = ((length ?line, None), [?line])"
    unfolding example_line_text
    by (simp add: example_ext_def accepting_def New_def example_handler_def)
  have f: "Write (example_ext failing) (Writer example_handler)
             (line_text (example_ext failing) example_handler example_entry)
           = ((0, Some (WriteError ''closed'')), [?line])"
    unfolding example_line_text
    by (simp add: example_ext_def failing_def New_def example_handler_def)
  have "\<exists>h1. HandleLog (example_ext accepting) example_handler example_entry = Inr (None, h1)
          \<and> Writer h1 = [?line]"
    using HandleLog_fails_iff_write_fails [OF example_Level a, THEN conjunct1]
    by (simp add: example_line_text)
  moreover have "\<exists>h1. HandleLog (example_ext failing) example_handler example_entry
               = Inr (Some (WriteError ''closed''), h1)
          \<and> Writer h1 = [?line]"
    using HandleLog_fails_iff_write_fails [OF example_Level f, THEN conjunct1]
    by (simp add: example_line_text)
  ultimately show ?thesis
    using example_Level by (intro conjI)
qed

lemma example_fields:
  "Level example_entry = 1" "Message example_entry = ''starting''"
  "Entry_Timestamp example_entry = 0"
  by (simp_all add: example_entry_def InfoLevel_def)

text \<open>
  The claim of C8 fails for the earlier version: the writer fails on the line and
  \<^verbatim>\<open>HandleLog\<close> returns \<^verbatim>\<open>nil\<close>.
\<close>

theorem HandleLog0_drops_write_error:
  "(\<exists>h1. HandleLog0 (example_ext failing) example_handler0 example_entry = Inr (None, h1)
         \<and> Writer h1 = ['' I starting count=42 name=worker-1'' @ [CHR 0x0A]])
   \<and> failing [] ('' I starting count=42 name=worker-1'' @ [CHR 0x0A])
       = ((0, Some (WriteError ''closed'')), ['' I starting count=42 name=worker-1'' @ [CHR 0x0A]])"
proof -
  have "HandleLog0 (example_ext failing) example_handler0 example_entry =
          Inr (None,
               \<lparr>Writer = ['' I starting count=42 name=worker-1'' @ [CHR 0x0A]],
                Timestamp = [],
                lengths = [''msg'' \<mapsto> 8, ''count'' \<mapsto> 2, ''name'' \<mapsto> 8],
                buf = []\<rparr>)"
    unfolding HandleLog0_def example_sortNames
    by (simp add: Let_def index_def LevelColors0_def LevelSymbol_def example_fields
        example_handler0_def New0_def lengths0_at_def Fprintf_buf_def writeNameValue0_def
        example_Get example_right example_ext_def example_v_def example_Sprintf_d
        WriteTo_def failing_def)
  then show ?thesis
    by (simp add: failing_def)
qed

section \<open>The order of the names and the rendered alignment\<close>

lemma field_text_rendered_right:
  "field_text x (field_stat x m e name) e name i names =
     (if rendered_right x m e name
      then right_text x name (MaxLength (field_stat x m e name)) (field_val x e name)
      else left_text x name (field_val x e name)
             (if field_sw x e name < MaxLength (field_stat x m e name) \<and> i + 1 \<noteq> length names
              then nat (MaxLength (field_stat x m e name) - field_sw x e name) else 0))"
  by (simp add: field_text_def rendered_right_def)

lemma elapsed_Duration: "Duration g4 37324800000000005 = ''1y2m1w''"
  by (simp add: Duration_def time_defs durations_def Sprintf_d_def FormatUint.simps digit_char_def)

lemma elapsed_right:
  "\<not> isTypeRightAlignable (StringV ''1y2m1w'')" "\<not> isTypeRightAlignable (StringV ''zz'')"
  "isTypeRightAlignable (DurationV d)"
  by (simp_all add: reNumType_eval)

lemma elapsed_Get:
  "Get (Fields example_elapsed) ''elapsed'' = DurationV 37324800000000005"
  "Get (Fields example_elapsed) ''n'' = IntV 42"
  "Get (Fields example_elapsed) ''a'' = StringV ''zz''"
  by (simp_all add: example_elapsed_def Get_def)

lemma elapsed_Names: "Names (Fields example_elapsed) = [''a'', ''elapsed'', ''n'']"
  by (simp add: example_elapsed_def Names_def sort_Slice_def)

lemma elapsed_names_lt:
  "names_lt example_elapsed ''elapsed'' ''n''" "names_lt example_elapsed ''elapsed'' ''a''"
  "names_lt example_elapsed ''n'' ''a''"
  "\<not> names_lt example_elapsed ''n'' ''elapsed''" "\<not> names_lt example_elapsed ''a'' ''elapsed''"
  "\<not> names_lt example_elapsed ''a'' ''n''"
  by (simp_all add: names_lt_def elapsed_Get elapsed_right example_right)

lemma elapsed_sortNames:
  "sortNames example_elapsed (Names (Fields example_elapsed)) = [''elapsed'', ''n'', ''a'']"
  by (simp add: elapsed_Names sortNames_def sort_Slice_def elapsed_names_lt)

lemma elapsed_field_val:
  "field_val (example_ext wr) example_elapsed ''elapsed'' = StringV ''1y2m1w''"
  "field_val (example_ext wr) example_elapsed ''n'' = IntV 42"
  "field_val (example_ext wr) example_elapsed ''a'' = StringV ''zz''"
  by (simp_all add: field_val_def elapsed_Get elapsed_Duration)

lemma elapsed_rendered_right:
  "\<not> rendered_right (example_ext wr) (lengths example_handler) example_elapsed ''elapsed''"
  "rendered_right (example_ext wr) (lengths example_handler) example_elapsed ''n''"
  "\<not> rendered_right (example_ext wr) (lengths example_handler) example_elapsed ''a''"
  by (simp_all add: rendered_right_def field_stat_def elapsed_field_val elapsed_right
      example_right observe_def alignRight_def quo_def lengths_at_def example_handler_def
      New_def keyStat_zero_def Let_def)

lemma elapsed_field_sw:
  "field_sw (example_ext wr) example_elapsed ''elapsed'' = 6"
  "field_sw (example_ext wr) example_elapsed ''n'' = 2"
  "field_sw (example_ext wr) example_elapsed ''a'' = 2"
  unfolding field_sw_def elapsed_field_val
  by (simp_all add: example_ext_def example_v_def example_Sprintf_d)

lemma elapsed_field_stat:
  "field_stat (example_ext wr) (lengths example_handler) example_elapsed ''elapsed'' =
     \<lparr>MaxLength = 6, Count = 1, RightAlignable = 0\<rparr>"
  "field_stat (example_ext wr) (lengths example_handler) example_elapsed ''n'' =
     \<lparr>MaxLength = 2, Count = 1, RightAlignable = 1\<rparr>"
  "field_stat (example_ext wr) (lengths example_handler) example_elapsed ''a'' =
     \<lparr>MaxLength = 2, Count = 1, RightAlignable = 0\<rparr>"
  unfolding field_stat_def elapsed_field_val elapsed_field_sw
  by (simp_all add: elapsed_right example_right observe_def lengths_at_def example_handler_def
      New_def keyStat_zero_def)

lemma elapsed_field_text:
  "field_text (example_ext wr) \<lparr>MaxLength = 6, Count = 1, RightAlignable = 0\<rparr> example_elapsed
     ''elapsed'' 0 [''elapsed'', ''n'', ''a''] = '' elapsed=1y2m1w''"
  "field_text (example_ext wr) \<lparr>MaxLength = 2, Count = 1, RightAlignable = 1\<rparr> example_elapsed
     ''n'' (Suc 0) [''elapsed'', ''n'', ''a''] = '' n=42''"
  "field_text (example_ext wr) \<lparr>MaxLength = 2, Count = 1, RightAlignable = 0\<rparr> example_elapsed
     ''a'' (Suc (Suc 0)) [''elapsed'', ''n'', ''a''] = '' a=zz''"
  unfolding field_text_def elapsed_field_val elapsed_field_sw
  by (simp_all add: alignRight_def quo_def right_text_def left_text_def example_ext_def
      example_v_def example_Sprintf_d)

lemma elapsed_fields_text:
  "fields_text (example_ext wr) (lengths example_handler) example_elapsed
     [''elapsed'', ''n'', ''a''] 0 [''elapsed'', ''n'', ''a''] = '' elapsed=1y2m1w n=42 a=zz''"
  unfolding fields_text_def
  by (simp add: enumerate_eq_zip upt_rec elapsed_field_stat elapsed_field_text)

lemma elapsed_line_text:
  "line_text (example_ext wr) example_handler example_elapsed =
     '' I elapsed=1y2m1w n=42 a=zz'' @ [CHR 0x0A]"
  unfolding line_text_def elapsed_sortNames elapsed_fields_text
  by (simp add: example_ext_def example_elapsed_def InfoLevel_def LevelSymbol_def)

lemma elapsed_Level: "0 \<le> Level example_elapsed" "Level example_elapsed < 5"
  by (simp_all add: example_elapsed_def InfoLevel_def)

text \<open>
  With the alignment with which a field is rendered as its alignment, the claim of C6 fails on a
  new handler: \<^verbatim>\<open>sortNames\<close> puts the duration field \<^verbatim>\<open>elapsed\<close> first, with the values of numeric
  type, and \<^verbatim>\<open>writeNameValue\<close> prints it as the string \<^verbatim>\<open>1y2m1w\<close>, left-aligned, before the
  right-aligned field \<^verbatim>\<open>n\<close>; the left-aligned fields \<^verbatim>\<open>elapsed\<close> and \<^verbatim>\<open>a\<close> do not ascend.
\<close>

theorem rendered_alignment_not_sorted:
  "rendered_names example_elapsed = [''elapsed'', ''n'', ''a'']
   \<and> map (rendered_right (example_ext accepting) (lengths example_handler) example_elapsed)
         (rendered_names example_elapsed) = [False, True, False]
   \<and> strings_Compare ''elapsed'' ''a'' = 1
   \<and> \<not> sorted_wrt
         (\<lambda>a b.
            (rendered_right (example_ext accepting) (lengths example_handler) example_elapsed a
             \<and> \<not> rendered_right (example_ext accepting) (lengths example_handler)
                   example_elapsed b)
            \<or> (rendered_right (example_ext accepting) (lengths example_handler) example_elapsed a
                 = rendered_right (example_ext accepting) (lengths example_handler)
                     example_elapsed b
                \<and> strings_Compare a b = - 1))
         (rendered_names example_elapsed)
   \<and> render (example_ext accepting) example_handler example_elapsed =
       Inr (None,
            example_handler
            \<lparr>lengths := fields_lengths (example_ext accepting) (lengths example_handler)
                          example_elapsed [''elapsed'', ''n'', ''a''],
              buf := '' I elapsed=1y2m1w n=42 a=zz'' @ [CHR 0x0A]\<rparr>)"
proof -
  have n: "rendered_names example_elapsed = [''elapsed'', ''n'', ''a'']"
    by (simp add: rendered_names_def elapsed_sortNames)
  have r: "render (example_ext accepting) example_handler example_elapsed =
       Inr (None,
            example_handler
            \<lparr>lengths := fields_lengths (example_ext accepting) (lengths example_handler)
                          example_elapsed [''elapsed'', ''n'', ''a''],
              buf := '' I elapsed=1y2m1w n=42 a=zz'' @ [CHR 0x0A]\<rparr>)"
    unfolding render_eq [OF elapsed_Level] elapsed_sortNames elapsed_line_text ..
  have c: "strings_Compare ''elapsed'' ''a'' = 1"
    by simp
  show ?thesis
    unfolding n using r c by (simp add: elapsed_rendered_right)
qed

section \<open>Properties of the key colors\<close>

text \<open>The checksum of the model on a one-byte input, as \<^verbatim>\<open>crc32.ChecksumIEEE\<close> gives it.\<close>

lemma crc32_byte_unfold:
  "crc32_byte c b =
     crc32_bit (crc32_bit (crc32_bit (crc32_bit (crc32_bit (crc32_bit (crc32_bit (crc32_bit
       (c XOR of_char b))))))))"
  by (simp add: crc32_byte_def numeral_eq_Suc)

lemma ChecksumIEEE_a: "ChecksumIEEE ''a'' = 0xE8B7BE43"
  by (simp add: ChecksumIEEE_def crc32_byte_unfold crc32_bit_def)

text \<open>
  Claim C2, as amended.  In the current version of the handler the key color of the field
  named \<^verbatim>\<open>error\<close> is, for every call, the entry of \<^verbatim>\<open>LevelColors\<close> for the level ERROR.  In
  the earlier version it is the fixed entry 6 of the palette \<^verbatim>\<open>KeyColors\<close>, a bright red,
  for every call.
\<close>

theorem error_key_color:
  "getKeyColor ''error'' = LevelColors ! nat ErrorLevel
   \<and> index LevelColors ErrorLevel = Inr (getKeyColor ''error'')
   \<and> getKeyColor ''error'' = color_New [FgRed]
   \<and> getKeyColor0 ''error'' = KeyColors ! 6
   \<and> getKeyColor0 ''error'' = color_New [FgHiRed]"
  by (simp add: getKeyColor_def getKeyColor0_def index_def LevelColors_def KeyColors_def
      ErrorLevel_def)

text \<open>
  In the earlier version the key color of \<^verbatim>\<open>error\<close> is not the color of the level ERROR
  (red) but that of the level FATAL (bright red).
\<close>

theorem error_key_color_earlier_version:
  "getKeyColor0 ''error'' \<noteq> LevelColors0 ! nat ErrorLevel
   \<and> index LevelColors0 ErrorLevel = Inr (color_New [FgRed])
   \<and> getKeyColor0 ''error'' = color_New [FgHiRed]
   \<and> index LevelColors0 FatalLevel = Inr (getKeyColor0 ''error'')"
  by (simp add: getKeyColor0_def index_def LevelColors0_def KeyColors_def ErrorLevel_def
      FatalLevel_def)

end
